theory Spec2Isabelle
  imports Main
begin

text \<open>
  The dashboard of \<open>dashboard6.py\<close>: the loading and cleaning of the table of visits
  (\<open>carregar_dados\<close>), the filter by city and period, and the tables behind the
  indicators and charts.  Columns of the pandas table are lists, a row is a record, and
  each pandas operation the script calls is a function on cells or columns.
\<close>

section \<open>Text values\<close>

text \<open>
  A Python \<open>str\<close> is a sequence of Unicode code points; a code point is a natural
  number.  ASCII literals are written through \<open>str\<close>; the two letters outside ASCII
  that the source mentions are U+00C3 (capital A with tilde, 195) and its lower-case
  form U+00E3 (227).
\<close>

type_synonym pystr = "nat list"

definition str :: "string \<Rightarrow> pystr" where
  "str s = map of_char s"

text \<open>
  \<open>str.isspace\<close> for one code point; the same set of code points is what \<open>\\s\<close>
  matches in a \<open>str\<close> pattern of the \<open>re\<close> module.
\<close>

definition isspace :: "nat \<Rightarrow> bool" where
  "isspace c \<longleftrightarrow>
     (9 \<le> c \<and> c \<le> 13) \<or> (28 \<le> c \<and> c \<le> 32) \<or> c = 133 \<or> c = 160 \<or> c = 5760 \<or>
     (8192 \<le> c \<and> c \<le> 8202) \<or> c = 8232 \<or> c = 8233 \<or> c = 8239 \<or> c = 8287 \<or> c = 12288"

text \<open>\<open>s.strip()\<close>: leading and trailing whitespace removed.\<close>

definition strip :: "pystr \<Rightarrow> pystr" where
  "strip s = rev (dropWhile isspace (rev (dropWhile isspace s)))"

text \<open>
  A cell of an object column read from the CSV file: a missing value (\<open>np.nan\<close>) or a
  text.
\<close>

datatype cell = NaN | Str pystr

text \<open>\<open>astype(str)\<close> on one cell: the missing value becomes the text \<open>nan\<close>.\<close>

definition astype_str :: "cell \<Rightarrow> pystr" where
  "astype_str c = (case c of NaN \<Rightarrow> str ''nan'' | Str s \<Rightarrow> s)"

section \<open>Regular expressions\<close>

text \<open>
  The fragment of the \<open>re\<close> syntax that the source uses: single characters, a
  character set \<open>[...]\<close>, \<open>\\s\<close>, \<open>?\<close>, \<open>+\<close> and concatenation.  Matching is by
  derivatives; no flag is passed in the source, so characters are compared exactly.
\<close>

datatype regex =
    Zero
  | One
  | Chr nat
  | OneOf "nat list"
  | Whitespace
  | Alt regex regex
  | Cat regex regex
  | Star regex

definition Opt :: "regex \<Rightarrow> regex" where
  "Opt r = Alt One r"

definition Plus :: "regex \<Rightarrow> regex" where
  "Plus r = Cat r (Star r)"

definition lit :: "pystr \<Rightarrow> regex" where
  "lit s = foldr (\<lambda>c r. Cat (Chr c) r) s One"

definition seq :: "regex list \<Rightarrow> regex" where
  "seq rs = foldr Cat rs One"

fun nullable :: "regex \<Rightarrow> bool" where
  "nullable Zero = False"
| "nullable One = True"
| "nullable (Chr c) = False"
| "nullable (OneOf cs) = False"
| "nullable Whitespace = False"
| "nullable (Alt r s) = (nullable r \<or> nullable s)"
| "nullable (Cat r s) = (nullable r \<and> nullable s)"
| "nullable (Star r) = True"

fun deriv :: "nat \<Rightarrow> regex \<Rightarrow> regex" where
  "deriv a Zero = Zero"
| "deriv a One = Zero"
| "deriv a (Chr c) = (if a = c then One else Zero)"
| "deriv a (OneOf cs) = (if a \<in> set cs then One else Zero)"
| "deriv a Whitespace = (if isspace a then One else Zero)"
| "deriv a (Alt r s) = Alt (deriv a r) (deriv a s)"
| "deriv a (Cat r s) =
     (if nullable r then Alt (Cat (deriv a r) s) (deriv a s) else Cat (deriv a r) s)"
| "deriv a (Star r) = Cat (deriv a r) (Star r)"

text \<open>\<open>fullmatch\<close>: the whole text is in the language of the expression.\<close>

fun fullmatch :: "regex \<Rightarrow> pystr \<Rightarrow> bool" where
  "fullmatch r [] = nullable r"
| "fullmatch r (a # s) = fullmatch (deriv a r) s"

text \<open>
  \<open>re.search\<close> for a pattern \<open>^r$\<close> without the MULTILINE flag: \<open>^\<close> fixes the
  match at position 0, and \<open>$\<close> matches at the end of the text or just before a line
  feed that ends the text.
\<close>

definition search_anchored :: "regex \<Rightarrow> pystr \<Rightarrow> bool" where
  "search_anchored r s \<longleftrightarrow>
     fullmatch r s \<or> (s \<noteq> [] \<and> last s = 10 \<and> fullmatch r (butlast s))"

section \<open>Cleaning of the diagnosis column\<close>

text \<open>
  The pattern of \<open>carregar_dados\<close>, without its anchors \<open>^\<close> and \<open>$\<close> (they are in
  \<open>search_anchored\<close>): an optional period, \<open>N\<close>, one of U+00C3 and \<open>A\<close>, \<open>O\<close>, one or
  more whitespace characters, \<open>DEFINIDO\<close>, an optional period.
\<close>

definition nao_definido :: regex where
  "nao_definido =
     seq [Opt (lit (str ''.'')), lit (str ''N''), OneOf [195, 65], lit (str ''O''),
          Plus Whitespace, lit (str ''DEFINIDO''), Opt (lit (str ''.''))]"

text \<open>
  \<open>Series.replace(pattern, np.nan, regex=True)\<close> on one cell: a text that the pattern
  finds becomes missing; a missing value is left as it is.
\<close>

definition replace_regex :: "regex \<Rightarrow> cell \<Rightarrow> cell" where
  "replace_regex r c =
     (case c of NaN \<Rightarrow> NaN | Str s \<Rightarrow> if search_anchored r s then NaN else Str s)"

text \<open>\<open>Series.replace(text, np.nan)\<close> on one cell: a cell equal to the text becomes missing.\<close>

definition replace_value :: "pystr \<Rightarrow> cell \<Rightarrow> cell" where
  "replace_value v c = (if c = Str v then NaN else c)"

text \<open>The three assignments to \<open>df['diagnostico']\<close> in \<open>carregar_dados\<close>, on one cell.\<close>

definition clean_diagnostico :: "cell \<Rightarrow> cell" where
  "clean_diagnostico c =
     (let c1 = Str (strip (astype_str c));
          c2 = replace_regex nao_definido c1;
          c3 = replace_value (str ''nan'') c2
      in c3)"

section \<open>Dates and timestamps\<close>

text \<open>
  A calendar date (\<open>datetime.date\<close>) and a pandas \<open>Timestamp\<close>: a date and the time of
  day in nanoseconds since midnight.
\<close>

record date =
  year :: int
  month :: int
  day :: int

record timestamp =
  the_date :: date
  time_of_day :: nat

definition ns_per_day :: int where
  "ns_per_day = 86400000000000"

definition is_leap :: "int \<Rightarrow> bool" where
  "is_leap y \<longleftrightarrow> y mod 4 = 0 \<and> (y mod 100 \<noteq> 0 \<or> y mod 400 = 0)"

definition days_in_month :: "int \<Rightarrow> int \<Rightarrow> int" where
  "days_in_month y m =
     (if m = 2 then (if is_leap y then 29 else 28)
      else if m = 4 \<or> m = 6 \<or> m = 9 \<or> m = 11 then 30 else 31)"

definition days_before_year :: "int \<Rightarrow> int" where
  "days_before_year y = (y - 1) * 365 + (y - 1) div 4 - (y - 1) div 100 + (y - 1) div 400"

definition days_before_month :: "int \<Rightarrow> int \<Rightarrow> int" where
  "days_before_month y m = sum_list (map (days_in_month y) [1..m - 1])"

text \<open>The proleptic Gregorian ordinal of a date: 1 for 0001-01-01.\<close>

definition toordinal :: "date \<Rightarrow> int" where
  "toordinal d = days_before_year (year d) + days_before_month (year d) (month d) + day d"

text \<open>
  The integer a \<open>datetime64[ns]\<close> column stores for a timestamp, up to the choice of
  the epoch: nanoseconds counted from midnight before 0001-01-01.  Timestamps are
  ordered and subtracted through it.
\<close>

definition value_ns :: "timestamp \<Rightarrow> int" where
  "value_ns t = toordinal (the_date t) * ns_per_day + int (time_of_day t)"

text \<open>What \<open>pd.to_datetime\<close> can return: a date of the calendar and a time within the day.\<close>

definition valid_date :: "date \<Rightarrow> bool" where
  "valid_date d \<longleftrightarrow>
     1 \<le> month d \<and> month d \<le> 12 \<and> 1 \<le> day d \<and> day d \<le> days_in_month (year d) (month d)"

definition valid_timestamp :: "timestamp \<Rightarrow> bool" where
  "valid_timestamp t \<longleftrightarrow> valid_date (the_date t) \<and> int (time_of_day t) < ns_per_day"

text \<open>Comparison of two \<open>datetime.date\<close> values: by year, then month, then day.\<close>

definition date_le :: "date \<Rightarrow> date \<Rightarrow> bool" where
  "date_le a b \<longleftrightarrow>
     year a < year b \<or>
     (year a = year b \<and> (month a < month b \<or> (month a = month b \<and> day a \<le> day b)))"

section \<open>The table\<close>

text \<open>
  A row of the CSV file after \<open>read_csv\<close>.  The two date columns hold what
  \<open>pd.to_datetime(..., errors='coerce')\<close> gives for the row: \<open>None\<close> is \<open>NaT\<close>, the
  result for a missing or unparseable value.  \<open>row_id\<close> is the column \<open>_id\<close>.
\<close>

record raw_row =
  row_id :: cell
  cidade :: cell
  sexo :: cell
  dataNascimento :: "timestamp option"
  dataEntrada :: "timestamp option"
  queixa :: cell
  diagnostico :: cell

text \<open>A row of the table \<open>carregar_dados\<close> returns: the two derived columns are added.\<close>

record row = raw_row +
  idade_no_atendimento :: "int option"
  faixa_etaria :: "pystr option"

text \<open>\<open>df[mask]\<close>: the rows at which the boolean column is true, in their order.\<close>

definition boolean_index :: "'a list \<Rightarrow> bool list \<Rightarrow> 'a list" where
  "boolean_index df keep = map fst (filter snd (zip df keep))"

text \<open>\<open>a & b\<close> on two boolean columns.\<close>

definition mask_and :: "bool list \<Rightarrow> bool list \<Rightarrow> bool list" where
  "mask_and a b = map (\<lambda>(x, y). x \<and> y) (zip a b)"

section \<open>Age at the visit and age band\<close>

text \<open>The exceptions of Python that the script can meet after the file is read.\<close>

datatype error = ValueError | OverflowError

definition int64_min :: int where
  "int64_min = - 9223372036854775808"

definition int64_max :: int where
  "int64_max = 9223372036854775807"

text \<open>
  \<open>a - b\<close> on two cells of \<open>datetime64[ns]\<close> columns: the difference of the nanosecond
  values, a 64-bit integer.  The subtraction is checked: a difference outside the
  64-bit range raises \<open>OverflowError\<close> (dates more than about 292 years apart).  The
  result is \<open>NaT\<close> when a side is \<open>NaT\<close>; the least 64-bit integer is itself the
  representation of \<open>NaT\<close>.
\<close>

definition sub_datetime :: "timestamp option \<Rightarrow> timestamp option \<Rightarrow> error + int option" where
  "sub_datetime a b =
     (case (a, b) of
        (Some x, Some y) \<Rightarrow>
          (let d = value_ns x - value_ns y
           in if d < int64_min \<or> int64_max < d then Inl OverflowError
              else if d = int64_min then Inr None
              else Inr (Some d))
      | _ \<Rightarrow> Inr None)"

text \<open>
  An operation on a whole column raises when it raises for one of the cells; otherwise
  it gives the column of the results.
\<close>

fun collect :: "(error + 'a) list \<Rightarrow> error + 'a list" where
  "collect [] = Inr []"
| "collect (x # xs) =
     (case x of
        Inl e \<Rightarrow> Inl e
      | Inr v \<Rightarrow> (case collect xs of Inl e \<Rightarrow> Inl e | Inr vs \<Rightarrow> Inr (v # vs)))"

text \<open>
  \<open>.dt.days\<close> on a cell of a \<open>timedelta64[ns]\<close> column: the whole days, rounded down;
  missing for \<open>NaT\<close>.
\<close>

definition dt_days :: "int option \<Rightarrow> int option" where
  "dt_days d = (case d of None \<Rightarrow> None | Some v \<Rightarrow> Some (v div ns_per_day))"

text \<open>\<open>x // n\<close> on a numeric cell: floor division; a missing value stays missing.\<close>

definition floordiv :: "int option \<Rightarrow> int \<Rightarrow> int option" where
  "floordiv x n = (case x of None \<Rightarrow> None | Some v \<Rightarrow> Some (v div n))"

text \<open>\<open>x >= n\<close> and \<open>x < n\<close> on a numeric cell: false for a missing value.\<close>

definition num_ge :: "int option \<Rightarrow> int \<Rightarrow> bool" where
  "num_ge x n = (case x of None \<Rightarrow> False | Some v \<Rightarrow> n \<le> v)"

definition num_lt :: "int option \<Rightarrow> int \<Rightarrow> bool" where
  "num_lt x n = (case x of None \<Rightarrow> False | Some v \<Rightarrow> v < n)"

definition bins :: "int list" where
  "bins = [0, 2, 12, 19, 59, 120]"

definition labels :: "pystr list" where
  "labels =
     [str ''Beb'' @ [234] @ str '' (0-2)'',
      str ''Crian'' @ [231] @ str ''a (3-12)'',
      str ''Adolescente (13-19)'',
      str ''Adulto (20-59)'',
      str ''Idoso (60+)'']"

text \<open>
  \<open>pd.cut(x, bins, labels, right=False)\<close> on one value: the label of the interval
  \<open>[lo, hi)\<close> between two neighbouring edges that holds the value; missing when no
  interval does.
\<close>

fun cut_bin :: "int list \<Rightarrow> 'l list \<Rightarrow> int \<Rightarrow> 'l option" where
  "cut_bin (lo # hi # edges) (l # ls) x =
     (if lo \<le> x \<and> x < hi then Some l else cut_bin (hi # edges) ls x)"
| "cut_bin _ _ x = None"

definition pd_cut :: "int list \<Rightarrow> 'l list \<Rightarrow> int option \<Rightarrow> 'l option" where
  "pd_cut edges ls x = (case x of None \<Rightarrow> None | Some v \<Rightarrow> cut_bin edges ls v)"

section \<open>Loading\<close>

text \<open>
  \<open>carregar_dados\<close> after the file is read: the diagnosis column is cleaned, the age is
  computed, the rows with an age outside \<open>[0, 120)\<close> are removed, the age band is added.
  The subtraction of the two date columns can raise; the script catches only
  \<open>FileNotFoundError\<close> around the call, so the error ends the run and there is no
  table.
\<close>

definition with_diagnostico :: "raw_row \<Rightarrow> raw_row" where
  "with_diagnostico r = r\<lparr>diagnostico := clean_diagnostico (diagnostico r)\<rparr>"

definition with_idade :: "raw_row \<Rightarrow> int option \<Rightarrow> row" where
  "with_idade r a = raw_row.extend r (row.fields a None)"

definition with_faixa_etaria :: "row \<Rightarrow> row" where
  "with_faixa_etaria r = r\<lparr>faixa_etaria := pd_cut bins labels (idade_no_atendimento r)\<rparr>"

definition carregar_dados :: "raw_row list \<Rightarrow> error + row list" where
  "carregar_dados raw =
     (let df1 = map with_diagnostico raw
      in case collect (map (\<lambda>r. sub_datetime (dataEntrada r) (dataNascimento r)) df1) of
           Inl e \<Rightarrow> Inl e
         | Inr deltas \<Rightarrow>
             (let idades = map (\<lambda>d. floordiv (dt_days d) 365) deltas;
                  df2 = map (\<lambda>(r, a). with_idade r a) (zip df1 idades);
                  df3 = boolean_index df2
                          (mask_and (map (\<lambda>r. num_ge (idade_no_atendimento r) 0) df2)
                                    (map (\<lambda>r. num_lt (idade_no_atendimento r) 120) df2))
              in Inr (map with_faixa_etaria df3)))"

section \<open>Filters\<close>

text \<open>\<open>Series.unique()\<close>: the distinct values in the order of their first occurrence.\<close>

fun unique_from :: "'a list \<Rightarrow> 'a list \<Rightarrow> 'a list" where
  "unique_from seen [] = []"
| "unique_from seen (x # xs) =
     (if x \<in> set seen then unique_from seen xs else x # unique_from (x # seen) xs)"

definition unique :: "'a list \<Rightarrow> 'a list" where
  "unique xs = unique_from [] xs"

text \<open>
  \<open>Series.min()\<close> and \<open>Series.max()\<close> of a timestamp column: \<open>NaT\<close> cells are skipped;
  the result is \<open>NaT\<close> when nothing is left.
\<close>

fun min_ts :: "timestamp list \<Rightarrow> timestamp option" where
  "min_ts [] = None"
| "min_ts (t # ts) =
     (case min_ts ts of
        None \<Rightarrow> Some t
      | Some m \<Rightarrow> if value_ns t \<le> value_ns m then Some t else Some m)"

fun max_ts :: "timestamp list \<Rightarrow> timestamp option" where
  "max_ts [] = None"
| "max_ts (t # ts) =
     (case max_ts ts of
        None \<Rightarrow> Some t
      | Some m \<Rightarrow> if value_ns m \<le> value_ns t then Some t else Some m)"

definition notna :: "'a option list \<Rightarrow> 'a list" where
  "notna col = concat (map (\<lambda>c. case c of None \<Rightarrow> [] | Some v \<Rightarrow> [v]) col)"

definition min_date :: "'a raw_row_scheme list \<Rightarrow> date option" where
  "min_date df = map_option the_date (min_ts (notna (map dataEntrada df)))"

definition max_date :: "'a raw_row_scheme list \<Rightarrow> date option" where
  "max_date df = map_option the_date (max_ts (notna (map dataEntrada df)))"

text \<open>The default of the city selector: \<open>df['cidade'].unique()\<close>.\<close>

definition cidades_default :: "'a raw_row_scheme list \<Rightarrow> cell list" where
  "cidades_default df = unique (map cidade df)"

text \<open>\<open>Series.isin(values)\<close> on one cell.\<close>

definition isin :: "cell \<Rightarrow> cell list \<Rightarrow> bool" where
  "isin c vs \<longleftrightarrow> c \<in> set vs"

text \<open>
  \<open>col.dt.date >= d\<close> and \<open>col.dt.date <= d\<close> on one cell: the time of day is dropped;
  false for \<open>NaT\<close>.
\<close>

definition dt_date_ge :: "timestamp option \<Rightarrow> date \<Rightarrow> bool" where
  "dt_date_ge t d = (case t of None \<Rightarrow> False | Some x \<Rightarrow> date_le d (the_date x))"

definition dt_date_le :: "timestamp option \<Rightarrow> date \<Rightarrow> bool" where
  "dt_date_le t d = (case t of None \<Rightarrow> False | Some x \<Rightarrow> date_le (the_date x) d)"

definition df_filtered :: "cell list \<Rightarrow> date \<Rightarrow> date \<Rightarrow> row list \<Rightarrow> row list" where
  "df_filtered cidades data_inicio data_fim df =
     boolean_index df
       (mask_and
          (mask_and (map (\<lambda>r. isin (cidade r) cidades) df)
                    (map (\<lambda>r. dt_date_ge (dataEntrada r) data_inicio) df))
          (map (\<lambda>r. dt_date_le (dataEntrada r) data_fim) df))"

section \<open>Indicators and rankings\<close>

text \<open>\<open>Series.dropna()\<close> on a text column.\<close>

definition dropna :: "cell list \<Rightarrow> cell list" where
  "dropna col = filter (\<lambda>c. c \<noteq> NaN) col"

text \<open>
  \<open>Series.value_counts()\<close>: the missing values are left out, the distinct values are
  counted in the order of their first occurrence, and \<open>sort_values(ascending=False)\<close>
  puts the counts in descending order.  pandas documents the descending order only.
  The descending order is obtained by sorting in ascending order and reading the result
  backwards, so that values with equal counts come out in the reverse order of their
  first occurrence: the column a, b, c, c, d, d gives d, c, b, a.
\<close>

definition value_counts :: "cell list \<Rightarrow> (cell \<times> nat) list" where
  "value_counts col =
     (let vals = dropna col;
          counts = map (\<lambda>v. (v, count_list vals v)) (unique vals)
      in rev (sort_key snd counts))"

text \<open>
  \<open>Series.idxmax()\<close>: the label of the first entry with the greatest value; raises
  \<open>ValueError\<close> on an empty series.
\<close>

fun first_max :: "'a \<times> nat \<Rightarrow> ('a \<times> nat) list \<Rightarrow> 'a \<times> nat" where
  "first_max best [] = best"
| "first_max best (p # ps) = first_max (if snd best < snd p then p else best) ps"

definition idxmax :: "('a \<times> nat) list \<Rightarrow> error + 'a" where
  "idxmax ps = (case ps of [] \<Rightarrow> Inl ValueError | p # ps' \<Rightarrow> Inr (fst (first_max p ps')))"

text \<open>The indicator of the most common diagnosis; the bare \<open>except\<close> gives \<open>N/A\<close>.\<close>

definition top_diag :: "row list \<Rightarrow> cell" where
  "top_diag df =
     (case idxmax (value_counts (dropna (map diagnostico df))) of
        Inl e \<Rightarrow> Str (str ''N/A'')
      | Inr d \<Rightarrow> d)"

text \<open>\<open>df.dropna(subset=['diagnostico'])\<close>.\<close>

definition df_clean_diag :: "row list \<Rightarrow> row list" where
  "df_clean_diag df = filter (\<lambda>r. diagnostico r \<noteq> NaN) df"

text \<open>The ranking: \<open>value_counts().head(10)\<close> of the diagnoses of \<open>df_clean_diag\<close>.\<close>

definition top_diagnosticos :: "row list \<Rightarrow> (cell \<times> nat) list" where
  "top_diagnosticos df = take 10 (value_counts (map diagnostico (df_clean_diag df)))"

section \<open>Search in the complaint\<close>

text \<open>
  Lower case of a code point, for the letters of ASCII and Latin-1.  The definition
  describes the comparison of two code points up to U+00FF; pairs with a code point
  beyond Latin-1 (U+00FF with U+0178, for one) are outside it.
\<close>

definition lower :: "nat \<Rightarrow> nat" where
  "lower c =
     (if (65 \<le> c \<and> c \<le> 90) \<or> (192 \<le> c \<and> c \<le> 222 \<and> c \<noteq> 215) then c + 32 else c)"

text \<open>
  \<open>Series.str.contains(term, case=False, na=False)\<close> on one text.  The term is
  compiled as a pattern of \<open>re\<close> with IGNORECASE (\<open>regex=True\<close> is the default) and
  searched anywhere in the text.  The definition describes the terms without a
  character that is special in a pattern (\<open>plain_term\<close>): for them the search finds the
  term itself, ignoring case.  A term with a special character is searched as a
  pattern (a period stands for any character, an unbalanced parenthesis raises
  \<open>re.error\<close>) and is outside the definition.
\<close>

definition special_chars :: pystr where
  "special_chars = str ''.^$*+?{}[]|()'' @ [92]"

definition plain_term :: "pystr \<Rightarrow> bool" where
  "plain_term t \<longleftrightarrow> list_all (\<lambda>c. c \<notin> set special_chars) t"

definition str_contains :: "pystr \<Rightarrow> pystr \<Rightarrow> bool" where
  "str_contains t s \<longleftrightarrow>
     list_ex (\<lambda>i. map lower (take (length t) (drop i s)) = map lower t) [0..<Suc (length s)]"

text \<open>
  The search of the second tab.  The branch runs only for a non-empty term
  (\<open>if termo_busca:\<close>); \<open>None\<close> is the case in which no table is computed.
\<close>

definition df_queixa :: "pystr \<Rightarrow> row list \<Rightarrow> row list option" where
  "df_queixa termo_busca df =
     (if termo_busca = [] then None
      else Some (boolean_index df
                   (map (\<lambda>r. str_contains termo_busca (astype_str (queixa r))) df)))"

section \<open>Visits per month\<close>

text \<open>Months are counted from year 0: the index of a month and the last day of a month.\<close>

definition month_index :: "date \<Rightarrow> int" where
  "month_index d = year d * 12 + (month d - 1)"

definition month_end :: "int \<Rightarrow> date" where
  "month_end i =
     (let y = i div 12; m = i mod 12 + 1
      in \<lparr>year = y, month = m, day = days_in_month y m\<rparr>)"

text \<open>
  \<open>resample('M').size()\<close> over a timestamp index: one bin for each calendar month from
  the month of the least timestamp to the month of the greatest, labelled by the last
  day of the month, with the number of timestamps of that month; nothing for an empty
  index.
\<close>

definition resample_M_size :: "timestamp list \<Rightarrow> (date \<times> nat) list" where
  "resample_M_size ts =
     (case (min_ts ts, max_ts ts) of
        (Some a, Some b) \<Rightarrow>
          map (\<lambda>i. (month_end i, length (filter (\<lambda>t. month_index (the_date t) = i) ts)))
              [month_index (the_date a)..month_index (the_date b)]
      | _ \<Rightarrow> [])"

text \<open>The series of the line chart (the rows of a loaded table have a visit date).\<close>

definition vendas_tempo :: "row list \<Rightarrow> (date \<times> nat) list" where
  "vendas_tempo df = resample_M_size (notna (map dataEntrada df))"

section \<open>Notions used in the statements\<close>

text \<open>The language of a regular expression.\<close>

definition conc :: "pystr set \<Rightarrow> pystr set \<Rightarrow> pystr set" where
  "conc A B = {u @ v | u v. u \<in> A \<and> v \<in> B}"

inductive_set star :: "pystr set \<Rightarrow> pystr set" for A :: "pystr set" where
  star_nil: "[] \<in> star A"
| star_app: "u \<in> A \<Longrightarrow> v \<in> star A \<Longrightarrow> u @ v \<in> star A"

fun lang :: "regex \<Rightarrow> pystr set" where
  "lang Zero = {}"
| "lang One = {[]}"
| "lang (Chr c) = {[c]}"
| "lang (OneOf cs) = {[c] | c. c \<in> set cs}"
| "lang Whitespace = {[c] | c. isspace c}"
| "lang (Alt r s) = lang r \<union> lang s"
| "lang (Cat r s) = conc (lang r) (lang s)"
| "lang (Star r) = star (lang r)"

text \<open>
  The texts that stand for "not defined": an optional period, \<open>N\<close>, U+00C3 or \<open>A\<close>,
  \<open>O\<close>, whitespace, \<open>DEFINIDO\<close>, an optional period, all in upper case.
\<close>

definition sentinel_upper :: "pystr \<Rightarrow> bool" where
  "sentinel_upper s \<longleftrightarrow>
     (\<exists>p a ws q. s = p @ str ''N'' @ [a] @ str ''O'' @ ws @ str ''DEFINIDO'' @ q \<and>
        (p = [] \<or> p = str ''.'') \<and> (a = 195 \<or> a = 65) \<and>
        ws \<noteq> [] \<and> (\<forall>c\<in>set ws. isspace c) \<and> (q = [] \<or> q = str ''.''))"

text \<open>The age at the visit: the whole days from birth to visit, divided by 365, rounded down.\<close>

definition age_at_visit :: "timestamp \<Rightarrow> timestamp \<Rightarrow> int" where
  "age_at_visit birth visit = ((value_ns visit - value_ns birth) div ns_per_day) div 365"

text \<open>The position of the first occurrence of a value in a column.\<close>

definition first_index :: "'a list \<Rightarrow> 'a \<Rightarrow> nat" where
  "first_index xs v = length (takeWhile (\<lambda>x. x \<noteq> v) xs)"

text \<open>
  The rows that stay in the loaded table: both dates are there and the age at the visit
  is in \<open>[0, 120)\<close>.
\<close>

definition survives :: "raw_row \<Rightarrow> bool" where
  "survives r =
     (case (dataNascimento r, dataEntrada r) of
        (Some birth, Some visit) \<Rightarrow> 0 \<le> age_at_visit birth visit \<and> age_at_visit birth visit < 120
      | _ \<Rightarrow> False)"

text \<open>
  The rows on which the subtraction of the dates overflows: from birth to visit there
  are more nanoseconds than a 64-bit integer holds.
\<close>

definition overflows :: "raw_row \<Rightarrow> bool" where
  "overflows r =
     (case (dataNascimento r, dataEntrada r) of
        (Some birth, Some visit) \<Rightarrow>
          value_ns visit - value_ns birth < int64_min \<or> int64_max < value_ns visit - value_ns birth
      | _ \<Rightarrow> False)"

text \<open>
  The cell that the subtraction of the dates gives for a row on which it does not
  overflow.
\<close>

definition delta_ns :: "'a raw_row_scheme \<Rightarrow> int option" where
  "delta_ns r =
     (case (dataNascimento r, dataEntrada r) of
        (Some birth, Some visit) \<Rightarrow>
          if value_ns visit - value_ns birth = int64_min then None
          else Some (value_ns visit - value_ns birth)
      | _ \<Rightarrow> None)"

text \<open>The row of the loaded table that comes from a row of the input.\<close>

definition loaded :: "raw_row \<Rightarrow> row" where
  "loaded r =
     with_faixa_etaria
       (with_idade (with_diagnostico r)
          (case (dataNascimento r, dataEntrada r) of
             (Some birth, Some visit) \<Rightarrow> Some (age_at_visit birth visit)
           | _ \<Rightarrow> None))"

text \<open>
  The row of the first scenario of the specification: born 2000-01-01, visit
  2020-01-01, diagnosis not defined.
\<close>

definition midnight :: "int \<Rightarrow> int \<Rightarrow> int \<Rightarrow> timestamp" where
  "midnight y m d = \<lparr>the_date = \<lparr>year = y, month = m, day = d\<rparr>, time_of_day = 0\<rparr>"

definition scenario_row :: raw_row where
  "scenario_row =
     \<lparr>row_id = Str (str ''1''), cidade = Str (str ''Bauru''), sexo = Str (str ''F''),
      dataNascimento = Some (midnight 2000 1 1), dataEntrada = Some (midnight 2020 1 1),
      queixa = Str (str ''Febre alta''),
      diagnostico = Str (str ''.N'' @ [195] @ str ''O DEFINIDO.'')\<rparr>"

text \<open>
  A view with the diagnoses gripe, asma, missing, gripe, gripe, asma, dengue, in this
  order, and a view with the diagnoses a, b, c, c, d, d.
\<close>

definition diag_row :: "cell \<Rightarrow> row" where
  "diag_row d = with_faixa_etaria (with_idade (scenario_row\<lparr>diagnostico := d\<rparr>) (Some 20))"

definition scenario_view :: "row list" where
  "scenario_view =
     map diag_row
       [Str (str ''gripe''), Str (str ''asma''), NaN, Str (str ''gripe''), Str (str ''gripe''),
        Str (str ''asma''), Str (str ''dengue'')]"

definition tie_view :: "row list" where
  "tie_view =
     map diag_row
       [Str (str ''a''), Str (str ''b''), Str (str ''c''), Str (str ''c''), Str (str ''d''),
        Str (str ''d'')]"

text \<open>The month indices of the visits of a view, row by row.\<close>

definition months_of :: "row list \<Rightarrow> int list" where
  "months_of df = map (\<lambda>t. month_index (the_date t)) (notna (map dataEntrada df))"

text \<open>The scenario row with another visit date, and with another birth date.\<close>

definition visit_on :: "int \<Rightarrow> int \<Rightarrow> int \<Rightarrow> raw_row" where
  "visit_on y m d = scenario_row\<lparr>dataEntrada := Some (midnight y m d)\<rparr>"

definition born_on :: "int \<Rightarrow> int \<Rightarrow> int \<Rightarrow> raw_row" where
  "born_on y m d = scenario_row\<lparr>dataNascimento := Some (midnight y m d)\<rparr>"

text \<open>The scenario row, loaded, with another complaint.\<close>

definition queixa_row :: "cell \<Rightarrow> row" where
  "queixa_row q = with_faixa_etaria (with_idade (scenario_row\<lparr>queixa := q\<rparr>) (Some 20))"

section \<open>Regular expressions: the matcher decides the language\<close>

lemma in_conc: "w \<in> conc A B \<longleftrightarrow> (\<exists>u v. w = u @ v \<and> u \<in> A \<and> v \<in> B)"
  by (auto simp: conc_def)

lemma conc_single: "conc {u} {v} = {u @ v}"
  by (simp add: conc_def)

lemma nil_in_conc: "[] \<in> conc A B \<longleftrightarrow> [] \<in> A \<and> [] \<in> B"
  by (auto simp: conc_def)

lemma cons_in_conc:
  "a # w \<in> conc A B \<longleftrightarrow>
     (\<exists>u v. w = u @ v \<and> a # u \<in> A \<and> v \<in> B) \<or> ([] \<in> A \<and> a # w \<in> B)"
proof
  assume "a # w \<in> conc A B"
  then obtain x y where xy: "a # w = x @ y" "x \<in> A" "y \<in> B"
    by (auto simp: conc_def)
  show "(\<exists>u v. w = u @ v \<and> a # u \<in> A \<and> v \<in> B) \<or> ([] \<in> A \<and> a # w \<in> B)"
  proof (cases x)
    case Nil
    with xy show ?thesis by simp
  next
    case (Cons b u)
    with xy have "w = u @ y" "a # u \<in> A" by auto
    with xy show ?thesis by blast
  qed
next
  assume "(\<exists>u v. w = u @ v \<and> a # u \<in> A \<and> v \<in> B) \<or> ([] \<in> A \<and> a # w \<in> B)"
  then show "a # w \<in> conc A B"
  proof
    assume "\<exists>u v. w = u @ v \<and> a # u \<in> A \<and> v \<in> B"
    then obtain u v where "w = u @ v" "a # u \<in> A" "v \<in> B" by blast
    then have "a # w = (a # u) @ v" "a # u \<in> A" "v \<in> B" by simp_all
    then show ?thesis unfolding conc_def by blast
  next
    assume "[] \<in> A \<and> a # w \<in> B"
    then have "a # w = [] @ (a # w)" "[] \<in> A" "a # w \<in> B" by simp_all
    then show ?thesis unfolding conc_def by blast
  qed
qed

lemma star_cons_split:
  "x \<in> star A \<Longrightarrow> x = a # w \<Longrightarrow> \<exists>u v. w = u @ v \<and> a # u \<in> A \<and> v \<in> star A"
proof (induction arbitrary: a w rule: star.induct)
  case star_nil
  then show ?case by simp
next
  case (star_app u v)
  show ?case
  proof (cases u)
    case Nil
    with star_app show ?thesis by simp
  next
    case (Cons b u')
    with star_app.prems have "w = u' @ v" "b = a" by simp_all
    with star_app.hyps Cons show ?thesis by blast
  qed
qed

lemma cons_in_star:
  "a # w \<in> star A \<longleftrightarrow> (\<exists>u v. w = u @ v \<and> a # u \<in> A \<and> v \<in> star A)"
proof
  assume "a # w \<in> star A"
  then show "\<exists>u v. w = u @ v \<and> a # u \<in> A \<and> v \<in> star A"
    using star_cons_split by blast
next
  assume "\<exists>u v. w = u @ v \<and> a # u \<in> A \<and> v \<in> star A"
  then obtain u v where "w = u @ v" "a # u \<in> A" "v \<in> star A" by blast
  then have "(a # u) @ v \<in> star A" "a # w = (a # u) @ v"
    using star_app [of "a # u" A v] by simp_all
  then show "a # w \<in> star A" by simp
qed

lemma nullable_lang: "nullable r \<longleftrightarrow> [] \<in> lang r"
  by (induction r) (auto simp: nil_in_conc intro: star_nil)

lemma deriv_lang: "w \<in> lang (deriv a r) \<longleftrightarrow> a # w \<in> lang r"
proof (induction r arbitrary: w)
  case (Cat r s)
  have L: "w \<in> lang (deriv a (Cat r s)) \<longleftrightarrow>
      (\<exists>u v. w = u @ v \<and> a # u \<in> lang r \<and> v \<in> lang s) \<or> (nullable r \<and> a # w \<in> lang s)"
    using Cat by (simp add: in_conc)
  have R: "a # w \<in> lang (Cat r s) \<longleftrightarrow>
      (\<exists>u v. w = u @ v \<and> a # u \<in> lang r \<and> v \<in> lang s) \<or> ([] \<in> lang r \<and> a # w \<in> lang s)"
    by (simp add: cons_in_conc)
  show ?case unfolding L R by (simp add: nullable_lang)
next
  case (Star r)
  have L: "w \<in> lang (deriv a (Star r)) \<longleftrightarrow>
      (\<exists>u v. w = u @ v \<and> a # u \<in> lang r \<and> v \<in> star (lang r))"
    using Star by (simp add: in_conc)
  show ?case unfolding L by (simp add: cons_in_star)
qed auto

lemma fullmatch_lang: "fullmatch r s \<longleftrightarrow> s \<in> lang r"
  by (induction s arbitrary: r) (simp_all add: nullable_lang deriv_lang)

lemma lit_Nil: "lit [] = One"
  by (simp add: lit_def)

lemma lit_Cons: "lit (c # s) = Cat (Chr c) (lit s)"
  by (simp add: lit_def)

lemma lang_lit: "lang (lit s) = {s}"
proof (induction s)
  case Nil
  show ?case by (simp add: lit_Nil)
next
  case (Cons c s)
  then show ?case by (simp add: lit_Cons conc_single)
qed

lemma lang_Opt: "lang (Opt r) = insert [] (lang r)"
  by (simp add: Opt_def)

lemma cons_in_singletons: "a # u \<in> {[c] | c. P c} \<longleftrightarrow> u = [] \<and> P a"
  by blast

lemma cons_in_star_singletons:
  "a # w \<in> star {[c] | c. P c} \<longleftrightarrow> P a \<and> w \<in> star {[c] | c. P c}"
  unfolding cons_in_star [of a w] cons_in_singletons by simp

lemma star_singletons:
  "w \<in> star {[c] | c. P c} \<longleftrightarrow> (\<forall>c\<in>set w. P c)"
proof (induction w)
  case Nil
  show ?case by (simp add: star_nil)
next
  case (Cons a w)
  then show ?case by (simp only: cons_in_star_singletons list.set ball_simps)
qed

lemma lang_Plus_Whitespace:
  "ws \<in> lang (Plus Whitespace) \<longleftrightarrow> ws \<noteq> [] \<and> (\<forall>c\<in>set ws. isspace c)"
proof (cases ws)
  case Nil
  then show ?thesis by (simp add: Plus_def nil_in_conc)
next
  case (Cons a w)
  have nil: "[] \<in> {[c] | c. isspace c} \<longleftrightarrow> False"
    by blast
  have "a # w \<in> lang (Plus Whitespace) \<longleftrightarrow>
      (\<exists>u v. w = u @ v \<and> a # u \<in> {[c] | c. isspace c} \<and> v \<in> star {[c] | c. isspace c})"
    unfolding Plus_def lang.simps cons_in_conc [of a w]
    by (simp only: nil simp_thms)
  also have "\<dots> \<longleftrightarrow> isspace a \<and> w \<in> star {[c] | c. isspace c}"
    unfolding cons_in_singletons by simp
  finally show ?thesis using Cons by (simp add: star_singletons)
qed

lemma seq_Nil: "seq [] = One"
  by (simp add: seq_def)

lemma seq_Cons: "seq (r # rs) = Cat r (seq rs)"
  by (simp add: seq_def)

lemma lang_seq_Nil: "s \<in> lang (seq []) \<longleftrightarrow> s = []"
  by (simp add: seq_Nil)

lemma lang_seq_ConsE:
  assumes "s \<in> lang (seq (r # rs))"
  obtains u v where "s = u @ v" and "u \<in> lang r" and "v \<in> lang (seq rs)"
  using assms by (auto simp: seq_Cons in_conc)

lemma lang_seq_litE:
  assumes "s \<in> lang (seq (lit l # rs))"
  obtains v where "s = l @ v" and "v \<in> lang (seq rs)"
  using assms by (auto simp: seq_Cons in_conc lang_lit)

lemma lang_seq_ConsI: "u \<in> lang r \<Longrightarrow> v \<in> lang (seq rs) \<Longrightarrow> u @ v \<in> lang (seq (r # rs))"
  by (auto simp: seq_Cons in_conc)

lemma lang_seq_litI: "v \<in> lang (seq rs) \<Longrightarrow> l @ v \<in> lang (seq (lit l # rs))"
  by (rule lang_seq_ConsI) (simp_all add: lang_lit)

lemma lang_OneOf: "u \<in> lang (OneOf cs) \<longleftrightarrow> (\<exists>a. u = [a] \<and> a \<in> set cs)"
  by auto

lemma lang_opt_lit: "p \<in> lang (Opt (lit l)) \<longleftrightarrow> p = [] \<or> p = l"
  by (auto simp: lang_Opt lang_lit)

lemma lang_nao_definido: "s \<in> lang nao_definido \<longleftrightarrow> sentinel_upper s"
proof
  assume "s \<in> lang nao_definido"
  then have 0: "s \<in> lang (seq [Opt (lit (str ''.'')), lit (str ''N''), OneOf [195, 65],
      lit (str ''O''), Plus Whitespace, lit (str ''DEFINIDO''), Opt (lit (str ''.''))])"
    by (simp only: nao_definido_def)
  from 0 obtain p v1 where 1: "s = p @ v1" "p \<in> lang (Opt (lit (str ''.'')))"
      "v1 \<in> lang (seq [lit (str ''N''), OneOf [195, 65], lit (str ''O''),
          Plus Whitespace, lit (str ''DEFINIDO''), Opt (lit (str ''.''))])"
    by (rule lang_seq_ConsE)
  from 1(3) obtain v2 where 2: "v1 = str ''N'' @ v2"
      "v2 \<in> lang (seq [OneOf [195, 65], lit (str ''O''),
          Plus Whitespace, lit (str ''DEFINIDO''), Opt (lit (str ''.''))])"
    by (rule lang_seq_litE)
  from 2(2) obtain u3 v3 where 3: "v2 = u3 @ v3" "u3 \<in> lang (OneOf [195, 65])"
      "v3 \<in> lang (seq [lit (str ''O''), Plus Whitespace, lit (str ''DEFINIDO''),
          Opt (lit (str ''.''))])"
    by (rule lang_seq_ConsE)
  from 3(2) obtain a where a: "u3 = [a]" "a = 195 \<or> a = 65"
    by (auto simp only: lang_OneOf set_simps insert_iff empty_iff)
  from 3(3) obtain v4 where 4: "v3 = str ''O'' @ v4"
      "v4 \<in> lang (seq [Plus Whitespace, lit (str ''DEFINIDO''), Opt (lit (str ''.''))])"
    by (rule lang_seq_litE)
  from 4(2) obtain ws v5 where 5: "v4 = ws @ v5" "ws \<in> lang (Plus Whitespace)"
      "v5 \<in> lang (seq [lit (str ''DEFINIDO''), Opt (lit (str ''.''))])"
    by (rule lang_seq_ConsE)
  from 5(3) obtain v6 where 6: "v5 = str ''DEFINIDO'' @ v6"
      "v6 \<in> lang (seq [Opt (lit (str ''.''))])"
    by (rule lang_seq_litE)
  from 6(2) obtain q v7 where 7: "v6 = q @ v7" "q \<in> lang (Opt (lit (str ''.'')))"
      "v7 \<in> lang (seq [])"
    by (rule lang_seq_ConsE)
  from 7(3) have 8: "v7 = []" by (simp only: lang_seq_Nil)
  have "s = p @ str ''N'' @ [a] @ str ''O'' @ ws @ str ''DEFINIDO'' @ q"
    by (simp only: 1(1) 2(1) 3(1) a(1) 4(1) 5(1) 6(1) 7(1) 8 append_Nil2)
  moreover have "p = [] \<or> p = str ''.''" by (rule iffD1 [OF lang_opt_lit 1(2)])
  moreover note a(2)
  moreover have "ws \<noteq> [] \<and> (\<forall>c\<in>set ws. isspace c)"
    by (rule iffD1 [OF lang_Plus_Whitespace 5(2)])
  moreover have "q = [] \<or> q = str ''.''" by (rule iffD1 [OF lang_opt_lit 7(2)])
  ultimately show "sentinel_upper s"
    unfolding sentinel_upper_def by blast
next
  assume "sentinel_upper s"
  then obtain p a ws q where s: "s = p @ str ''N'' @ [a] @ str ''O'' @ ws @ str ''DEFINIDO'' @ q"
    and p: "p = [] \<or> p = str ''.''" and a: "a = 195 \<or> a = 65"
    and ws: "ws \<noteq> [] \<and> (\<forall>c\<in>set ws. isspace c)" and q: "q = [] \<or> q = str ''.''"
    unfolding sentinel_upper_def by blast
  have p': "p \<in> lang (Opt (lit (str ''.'')))" by (rule iffD2 [OF lang_opt_lit p])
  have q': "q \<in> lang (Opt (lit (str ''.'')))" by (rule iffD2 [OF lang_opt_lit q])
  have ws': "ws \<in> lang (Plus Whitespace)" by (rule iffD2 [OF lang_Plus_Whitespace ws])
  have a': "[a] \<in> lang (OneOf [195, 65])" using a by auto
  have "[] \<in> lang (seq [])" by (simp only: lang_seq_Nil)
  from lang_seq_ConsI [OF q' this]
  have "q \<in> lang (seq [Opt (lit (str ''.''))])" by (simp only: append_Nil2)
  then have "p @ str ''N'' @ [a] @ str ''O'' @ ws @ str ''DEFINIDO'' @ q \<in> lang nao_definido"
    unfolding nao_definido_def
    by (intro lang_seq_ConsI [OF p'] lang_seq_litI lang_seq_ConsI [OF a'] lang_seq_ConsI [OF ws'])
  with s show "s \<in> lang nao_definido" by simp
qed

lemma fullmatch_nao_definido: "fullmatch nao_definido s \<longleftrightarrow> sentinel_upper s"
  by (simp add: fullmatch_lang lang_nao_definido)

section \<open>Cleaning of the diagnosis column: properties\<close>

lemma isspace_line_feed: "isspace 10"
  by (simp add: isspace_def)

lemma strip_last: "strip s \<noteq> [] \<Longrightarrow> \<not> isspace (last (strip s))"
  unfolding strip_def by (simp add: last_rev hd_dropWhile)

lemma strip_hd:
  assumes "strip s \<noteq> []"
  shows "\<not> isspace (hd (strip s))"
proof -
  define t where "t = dropWhile isspace s"
  have split: "rev t = takeWhile isspace (rev t) @ dropWhile isspace (rev t)"
    by simp
  have "t = rev (rev t)" by simp
  also have "\<dots> = strip s @ rev (takeWhile isspace (rev t))"
    by (subst split) (simp only: rev_append strip_def t_def)
  finally have t: "t = strip s @ rev (takeWhile isspace (rev t))" .
  with assms have "t \<noteq> []" by auto
  then have "\<not> isspace (hd t)" unfolding t_def by (rule hd_dropWhile)
  moreover have "hd t = hd (strip s)"
    using assms by (subst t) simp
  ultimately show ?thesis by simp
qed

lemma strip_fixed:
  assumes "s = [] \<or> (\<not> isspace (hd s) \<and> \<not> isspace (last s))"
  shows "strip s = s"
proof (cases "s = []")
  case True
  then show ?thesis by (simp add: strip_def)
next
  case False
  with assms have h: "\<not> isspace (hd s)" and l: "\<not> isspace (last s)" by simp_all
  from False h have 1: "dropWhile isspace s = s"
    by (cases s) simp_all
  from False l have 2: "dropWhile isspace (rev s) = rev s"
    by (cases "rev s") (simp_all add: last_rev [symmetric] hd_rev)
  show ?thesis by (simp add: strip_def 1 2)
qed

lemma strip_idem: "strip (strip s) = strip s"
  by (rule strip_fixed) (use strip_hd strip_last in blast)

lemma search_anchored_strip: "search_anchored r (strip s) \<longleftrightarrow> fullmatch r (strip s)"
  using strip_last [of s] isspace_line_feed by (auto simp: search_anchored_def)

lemma clean_diagnostico_eq:
  "clean_diagnostico c =
     (if sentinel_upper (strip (astype_str c)) \<or> strip (astype_str c) = str ''nan''
      then NaN else Str (strip (astype_str c)))"
  by (simp add: clean_diagnostico_def replace_regex_def replace_value_def
      search_anchored_strip fullmatch_nao_definido)

lemma strip_nan: "strip (str ''nan'') = str ''nan''"
  by (simp add: strip_def str_def isspace_def)

lemma clean_diagnostico_NaN: "clean_diagnostico NaN = NaN"
  by (simp add: clean_diagnostico_eq astype_str_def strip_nan)


lemmas clean_eval = clean_diagnostico_def replace_value_def replace_regex_def search_anchored_def
  nao_definido_def seq_def lit_def Opt_def Plus_def str_def strip_def isspace_def astype_str_def

text \<open>
  Claim C9.  Cleaning is idempotent: cleaning the result of cleaning a cell, the missing
  value included, gives that result again.
\<close>

theorem clean_diagnostico_idempotent:
  "clean_diagnostico (clean_diagnostico c) = clean_diagnostico c"
proof (cases "clean_diagnostico c")
  case NaN
  then show ?thesis by (simp add: clean_diagnostico_NaN)
next
  case (Str t)
  then have t: "t = strip (astype_str c)" and ok: "\<not> sentinel_upper t" "t \<noteq> str ''nan''"
    by (auto simp: clean_diagnostico_eq split: if_splits)
  have "strip (astype_str (Str t)) = t"
    by (simp add: astype_str_def t strip_idem)
  then have "clean_diagnostico (Str t) = Str t"
    using ok by (simp add: clean_diagnostico_eq)
  with Str show ?thesis by simp
qed

text \<open>
  Claim C1 as it is stated, with a sentinel tolerant of letter case, fails: the pattern
  is compared exactly, and the lower-case spelling of the sentinel is not replaced.
\<close>

theorem clean_diagnostico_lower_case_counterexample:
  "clean_diagnostico (Str (str ''n'' @ [227] @ str ''o definido.'')) \<noteq> NaN"
  by (simp add: clean_eval)

text \<open>
  Claim C1.  The cleaning step casts the cell to text, strips it, and replaces by the
  missing value every text that is, as a whole, the upper-case sentinel (an optional
  period, \<open>NAO\<close> with or without the tilde, whitespace, \<open>DEFINIDO\<close>, an optional
  period) and the text \<open>nan\<close>; every other text is kept stripped.  An upper-case
  sentinel never remains as text.  The first two spellings below become missing; the
  lower-case spelling is kept.
\<close>

theorem clean_diagnostico_sentinel:
  "clean_diagnostico c =
     (if sentinel_upper (strip (astype_str c)) \<or> strip (astype_str c) = str ''nan''
      then NaN else Str (strip (astype_str c))) \<and>
   (\<forall>s. sentinel_upper s \<longrightarrow> clean_diagnostico c \<noteq> Str s) \<and>
   clean_diagnostico (Str (str ''.N'' @ [195] @ str ''O DEFINIDO.'')) = NaN \<and>
   clean_diagnostico (Str (str ''NAO DEFINIDO'')) = NaN \<and>
   clean_diagnostico (Str (str ''n'' @ [227] @ str ''o definido.''))
     = Str (str ''n'' @ [227] @ str ''o definido.'')"
proof (intro conjI allI impI)
  show "clean_diagnostico c =
     (if sentinel_upper (strip (astype_str c)) \<or> strip (astype_str c) = str ''nan''
      then NaN else Str (strip (astype_str c)))"
    by (rule clean_diagnostico_eq)
next
  fix s assume "sentinel_upper s"
  then show "clean_diagnostico c \<noteq> Str s"
    by (auto simp: clean_diagnostico_eq)
next
  show "clean_diagnostico (Str (str ''.N'' @ [195] @ str ''O DEFINIDO.'')) = NaN"
    by (simp add: clean_eval)
next
  show "clean_diagnostico (Str (str ''NAO DEFINIDO'')) = NaN"
    by (simp add: clean_eval)
next
  show "clean_diagnostico (Str (str ''n'' @ [227] @ str ''o definido.''))
     = Str (str ''n'' @ [227] @ str ''o definido.'')"
    by (simp add: clean_eval)
qed

theorem clean_diagnostico_sentinel_witness:
  "sentinel_upper (str ''NAO  DEFINIDO.'') \<and>
   clean_diagnostico (Str (str '' NAO  DEFINIDO. '')) = NaN \<and>
   clean_diagnostico (Str (str '' NAO  DEFINIDO. '')) \<noteq> Str (str ''NAO  DEFINIDO.'')"
proof -
  have s: "sentinel_upper (str ''NAO  DEFINIDO.'')"
    unfolding fullmatch_nao_definido [symmetric]
    by (simp add: nao_definido_def seq_def lit_def Opt_def Plus_def str_def isspace_def)
  have t: "strip (astype_str (Str (str '' NAO  DEFINIDO. ''))) = str ''NAO  DEFINIDO.''"
    by (simp add: strip_def astype_str_def str_def isspace_def)
  show ?thesis
    using clean_diagnostico_sentinel [of "Str (str '' NAO  DEFINIDO. '')"] s t by simp
qed


section \<open>Loading and filtering: properties\<close>

lemma boolean_index_map: "boolean_index df (map P df) = filter P df"
  by (induction df) (simp_all add: boolean_index_def)

lemma mask_and_map: "mask_and (map P df) (map Q df) = map (\<lambda>r. P r \<and> Q r) df"
  by (induction df) (simp_all add: mask_and_def)

lemma collect_map_if:
  "collect (map (\<lambda>x. if P x then Inl e else Inr (g x)) xs) =
     (if list_ex P xs then Inl e else Inr (map g xs))"
  by (induction xs) simp_all

lemma sub_datetime_row:
  "sub_datetime (dataEntrada r) (dataNascimento r) =
     (if overflows r then Inl OverflowError else Inr (delta_ns r))"
  by (simp add: sub_datetime_def overflows_def delta_ns_def Let_def split: option.splits)

lemma overflows_with_diagnostico: "overflows (with_diagnostico r) = overflows r"
  by (simp add: overflows_def with_diagnostico_def)

lemma delta_ns_with_diagnostico: "delta_ns (with_diagnostico r) = delta_ns r"
  by (simp add: delta_ns_def with_diagnostico_def)

lemma idade_no_atendimento_with_idade: "idade_no_atendimento (with_idade r a) = a"
  by (simp add: with_idade_def raw_row.defs row.defs)

lemma idade_no_atendimento_with_faixa_etaria:
  "idade_no_atendimento (with_faixa_etaria r) = idade_no_atendimento r"
  by (simp add: with_faixa_etaria_def)

lemma int64_min_days: "(int64_min div ns_per_day) div 365 < 0"
  by (simp add: int64_min_def ns_per_day_def)

lemma in_range_survives:
  "num_ge (floordiv (dt_days (delta_ns r)) 365) 0 \<and>
   num_lt (floordiv (dt_days (delta_ns r)) 365) 120 \<longleftrightarrow> survives r"
proof (cases "dataNascimento r")
  case None
  then show ?thesis
    by (simp add: survives_def delta_ns_def dt_days_def floordiv_def num_ge_def)
next
  case birth: (Some b)
  show ?thesis
  proof (cases "dataEntrada r")
    case None
    then show ?thesis
      by (simp add: birth survives_def delta_ns_def dt_days_def floordiv_def num_ge_def)
  next
    case (Some v)
    show ?thesis
    proof (cases "value_ns v - value_ns b = int64_min")
      case True
      then have "\<not> survives r"
        using int64_min_days by (simp add: survives_def birth Some age_at_visit_def)
      with True show ?thesis
        by (simp add: birth Some delta_ns_def dt_days_def floordiv_def num_ge_def)
    next
      case False
      then show ?thesis
        by (simp add: birth Some survives_def delta_ns_def dt_days_def floordiv_def num_ge_def
            num_lt_def age_at_visit_def)
    qed
  qed
qed

lemma survives_idade:
  assumes "survives r"
  shows "floordiv (dt_days (delta_ns r)) 365 =
     (case (dataNascimento r, dataEntrada r) of
        (Some birth, Some visit) \<Rightarrow> Some (age_at_visit birth visit)
      | _ \<Rightarrow> None)"
proof -
  from assms obtain b v where bv: "dataNascimento r = Some b" "dataEntrada r = Some v"
    and age: "0 \<le> age_at_visit b v"
    by (auto simp: survives_def split: option.splits)
  from age int64_min_days have "value_ns v - value_ns b \<noteq> int64_min"
    by (auto simp: age_at_visit_def)
  then show ?thesis
    by (simp add: bv delta_ns_def dt_days_def floordiv_def age_at_visit_def)
qed

lemma loaded_survives:
  "survives r \<Longrightarrow>
     with_faixa_etaria (with_idade (with_diagnostico r) (floordiv (dt_days (delta_ns r)) 365))
       = loaded r"
  by (simp add: loaded_def survives_idade)

lemma carregar_dados_eq:
  "carregar_dados raw =
     (if list_ex overflows raw then Inl OverflowError
      else Inr (map loaded (filter survives raw)))"
proof -
  let ?age = "\<lambda>r. floordiv (dt_days (delta_ns r)) 365"
  let ?df1 = "map with_diagnostico raw"
  have sub: "collect (map (\<lambda>r. sub_datetime (dataEntrada r) (dataNascimento r)) ?df1) =
      (if list_ex overflows raw then Inl OverflowError else Inr (map delta_ns raw))"
    unfolding sub_datetime_row collect_map_if
    by (simp add: list_ex_iff overflows_with_diagnostico comp_def delta_ns_with_diagnostico)
  show ?thesis
  proof (cases "list_ex overflows raw")
    case True
    with sub show ?thesis by (simp add: carregar_dados_def Let_def)
  next
    case False
    have df2: "map (\<lambda>(r, a). with_idade r a) (zip ?df1 (map (\<lambda>d. floordiv (dt_days d) 365)
        (map delta_ns raw))) = map (\<lambda>r. with_idade (with_diagnostico r) (?age r)) raw"
      (is "?df2 = _")
    proof -
      have "map (\<lambda>d. floordiv (dt_days d) 365) (map delta_ns raw) = map ?age raw"
        by simp
      moreover have "zip (map with_diagnostico raw) (map ?age raw) =
          map (\<lambda>r. (with_diagnostico r, ?age r)) raw"
        by (induction raw) simp_all
      ultimately show ?thesis by (simp add: comp_def)
    qed
    have keep: "(\<lambda>r. num_ge (idade_no_atendimento (with_idade (with_diagnostico r) (?age r))) 0 \<and>
        num_lt (idade_no_atendimento (with_idade (with_diagnostico r) (?age r))) 120) = survives"
      by (simp add: idade_no_atendimento_with_idade in_range_survives)
    have "carregar_dados raw = Inr (map with_faixa_etaria
        (filter (\<lambda>r. num_ge (idade_no_atendimento r) 0 \<and> num_lt (idade_no_atendimento r) 120)
           ?df2))"
      using False sub by (simp add: carregar_dados_def Let_def mask_and_map boolean_index_map)
    also have "\<dots> = Inr (map (\<lambda>r. with_faixa_etaria (with_idade (with_diagnostico r) (?age r)))
        (filter survives raw))"
      unfolding df2 by (simp add: filter_map comp_def keep)
    also have "\<dots> = Inr (map loaded (filter survives raw))"
      by (simp add: loaded_survives cong: map_cong)
    finally show ?thesis using False by simp
  qed
qed

lemma carregar_dados_Inr:
  "carregar_dados raw = Inr df \<longleftrightarrow> \<not> list_ex overflows raw \<and> df = map loaded (filter survives raw)"
  by (auto simp: carregar_dados_eq)

lemma idade_no_atendimento_loaded:
  "survives r \<Longrightarrow> \<exists>n. idade_no_atendimento (loaded r) = Some n \<and> 0 \<le> n \<and> n < 120"
  by (auto simp: loaded_def survives_def idade_no_atendimento_with_faixa_etaria
      idade_no_atendimento_with_idade split: option.splits)

lemma carregar_dados_idade:
  assumes "carregar_dados raw = Inr df" "r \<in> set df"
  shows "\<exists>n. idade_no_atendimento r = Some n \<and> 0 \<le> n \<and> n < 120"
  using assms idade_no_atendimento_loaded by (auto simp: carregar_dados_Inr)

lemma df_filtered_eq:
  "df_filtered cidades data_inicio data_fim df =
     filter (\<lambda>r. isin (cidade r) cidades \<and> dt_date_ge (dataEntrada r) data_inicio \<and>
                 dt_date_le (dataEntrada r) data_fim) df"
  by (simp add: df_filtered_def mask_and_map boolean_index_map conj_assoc)

lemma df_filtered_subset: "set (df_filtered cidades data_inicio data_fim df) \<subseteq> set df"
  by (simp add: df_filtered_eq)

lemmas date_eval = midnight_def value_ns_def toordinal_def days_before_year_def
  days_before_month_def days_in_month_def is_leap_def ns_per_day_def

lemma survives_scenario_row: "survives scenario_row"
  by (simp add: survives_def scenario_row_def age_at_visit_def date_eval)

lemma not_overflows_scenario_row: "\<not> overflows scenario_row"
  by (simp add: overflows_def scenario_row_def date_eval int64_min_def int64_max_def)

lemma overflows_born_1700: "overflows (born_on 1700 1 1)"
  by (simp add: overflows_def born_on_def scenario_row_def date_eval int64_max_def)

lemma not_survives_born_1700: "\<not> survives (born_on 1700 1 1)"
  by (simp add: survives_def born_on_def scenario_row_def age_at_visit_def date_eval)

text \<open>
  Claim C2.  A row with an age out of range is meant to be removed and the other rows
  kept (the script removes the negative and the unreal ages).  For a row born on
  1700-01-01 with a visit on 2020-01-01, whose age is out of range, the subtraction of
  the dates overflows before the ages are compared: the load raises \<open>OverflowError\<close>
  and there is no table, although the other row of the input has the age 20.
\<close>

theorem carregar_dados_overflow:
  "survives scenario_row \<and> \<not> survives (born_on 1700 1 1) \<and>
   carregar_dados [born_on 1700 1 1, scenario_row] = Inl OverflowError"
  by (simp add: carregar_dados_eq survives_scenario_row not_survives_born_1700
      overflows_born_1700)

text \<open>
  Claim C4.  The filter returns, in their order, exactly the rows whose city is one of
  the chosen cities and whose visit date, without the time of day, is between the first
  and the last day chosen, both included.
\<close>

theorem df_filtered_exact:
  "df_filtered cidades data_inicio data_fim df =
     filter (\<lambda>r. cidade r \<in> set cidades \<and>
                 (\<exists>t. dataEntrada r = Some t \<and> date_le data_inicio (the_date t) \<and>
                      date_le (the_date t) data_fim)) df \<and>
   date_le d d"
proof
  have "(\<lambda>r::row. isin (cidade r) cidades \<and> dt_date_ge (dataEntrada r) data_inicio \<and>
                 dt_date_le (dataEntrada r) data_fim) =
        (\<lambda>r. cidade r \<in> set cidades \<and>
                 (\<exists>t. dataEntrada r = Some t \<and> date_le data_inicio (the_date t) \<and>
                      date_le (the_date t) data_fim))"
    by (auto simp: isin_def dt_date_ge_def dt_date_le_def split: option.splits)
  then show "df_filtered cidades data_inicio data_fim df =
     filter (\<lambda>r. cidade r \<in> set cidades \<and>
                 (\<exists>t. dataEntrada r = Some t \<and> date_le data_inicio (the_date t) \<and>
                      date_le (the_date t) data_fim)) df"
    by (simp add: df_filtered_eq)
  show "date_le d d" by (simp add: date_le_def)
qed

lemma faixa_etaria_loaded:
  "faixa_etaria (loaded r) = pd_cut bins labels (idade_no_atendimento (loaded r))"
  by (simp add: loaded_def with_faixa_etaria_def)

lemma faixa_etaria_carregar_dados:
  assumes "carregar_dados raw = Inr df" "r \<in> set df"
  shows "faixa_etaria r = pd_cut bins labels (idade_no_atendimento r)"
  using assms faixa_etaria_loaded by (auto simp: carregar_dados_Inr)

lemma bins_unique_interval:
  assumes "0 \<le> a" "a < 120"
  shows "\<exists>!i. i < 5 \<and> bins ! i \<le> a \<and> a < bins ! Suc i"
proof -
  consider "a < 2" | "2 \<le> a" "a < 12" | "12 \<le> a" "a < 19" | "19 \<le> a" "a < 59" | "59 \<le> a"
    by linarith
  then obtain i where i: "i < 5" "bins ! i \<le> a" "a < bins ! Suc i"
  proof cases
    case 1 with assms that [of 0] show ?thesis by (simp add: bins_def)
  next
    case 2 with that [of 1] show ?thesis by (simp add: bins_def)
  next
    case 3 with that [of 2] show ?thesis by (simp add: bins_def)
  next
    case 4 with that [of 3] show ?thesis by (simp add: bins_def)
  next
    case 5 with assms that [of 4] show ?thesis by (simp add: bins_def)
  qed
  have mono: "bins ! Suc j \<le> bins ! k" if "j < k" "k < 6" for j k
  proof -
    from that have "k = 1 \<or> k = 2 \<or> k = 3 \<or> k = 4 \<or> k = 5" by linarith
    moreover from that have "j = 0 \<or> j = 1 \<or> j = 2 \<or> j = 3 \<or> j = 4" by linarith
    ultimately show ?thesis using that(1) by (auto simp: bins_def)
  qed
  show ?thesis
  proof (rule ex1I [of _ i])
    show "i < 5 \<and> bins ! i \<le> a \<and> a < bins ! Suc i" using i by simp
  next
    fix j assume j: "j < 5 \<and> bins ! j \<le> a \<and> a < bins ! Suc j"
    show "j = i"
    proof (rule ccontr)
      assume "j \<noteq> i"
      then consider "j < i" | "i < j" by linarith
      then show False
      proof cases
        case 1
        with i have "bins ! Suc j \<le> bins ! i" by (intro mono) simp_all
        with i j show False by linarith
      next
        case 2
        with j have "bins ! Suc i \<le> bins ! j" by (intro mono) simp_all
        with i j show False by linarith
      qed
    qed
  qed
qed

lemma pd_cut_bins:
  assumes "i < 5" "bins ! i \<le> a" "a < bins ! Suc i"
  shows "pd_cut bins labels (Some a) = Some (labels ! i)"
proof -
  from assms(1) have "i = 0 \<or> i = 1 \<or> i = 2 \<or> i = 3 \<or> i = 4" by linarith
  then show ?thesis
    using assms(2,3) by (auto simp: pd_cut_def bins_def labels_def)
qed

text \<open>
  Claim C3.  The age band of a loaded row is computed from its age alone.  The edges are
  0, 2, 12, 19, 59, 120 with five distinct labels; an age in \<open>[0, 120)\<close> lies in exactly
  one interval closed on the left and open on the right, and gets the label of that
  interval.  Age 2 is in the second band and age 19 in the fourth.
\<close>

theorem faixa_etaria_bins:
  "(\<forall>df. carregar_dados raw = Inr df \<longrightarrow>
      (\<forall>r\<in>set df. faixa_etaria r = pd_cut bins labels (idade_no_atendimento r))) \<and>
   (0 \<le> a \<and> a < 120 \<longrightarrow>
      (\<exists>!i. i < 5 \<and> bins ! i \<le> a \<and> a < bins ! Suc i) \<and>
      (\<forall>i. i < 5 \<and> bins ! i \<le> a \<and> a < bins ! Suc i \<longrightarrow>
           pd_cut bins labels (Some a) = Some (labels ! i))) \<and>
   bins = [0, 2, 12, 19, 59, 120] \<and> length labels = 5 \<and> distinct labels \<and>
   pd_cut bins labels (Some 2) = Some (str ''Crian'' @ [231] @ str ''a (3-12)'') \<and>
   pd_cut bins labels (Some 19) = Some (str ''Adulto (20-59)'')"
proof (intro conjI ballI impI allI)
  fix df r assume "carregar_dados raw = Inr df" "r \<in> set df"
  then show "faixa_etaria r = pd_cut bins labels (idade_no_atendimento r)"
    by (rule faixa_etaria_carregar_dados)
next
  assume "0 \<le> a \<and> a < 120"
  then show "\<exists>!i. i < 5 \<and> bins ! i \<le> a \<and> a < bins ! Suc i"
    using bins_unique_interval by simp
next
  fix i assume "i < 5 \<and> bins ! i \<le> a \<and> a < bins ! Suc i"
  then show "pd_cut bins labels (Some a) = Some (labels ! i)"
    using pd_cut_bins by simp
next
  show "bins = [0, 2, 12, 19, 59, 120]" by (simp add: bins_def)
  show "length labels = 5" by (simp add: labels_def)
  show "distinct labels" by (simp add: labels_def str_def)
  show "pd_cut bins labels (Some 2) = Some (str ''Crian'' @ [231] @ str ''a (3-12)'')"
    by (simp add: pd_cut_def bins_def labels_def)
  show "pd_cut bins labels (Some 19) = Some (str ''Adulto (20-59)'')"
    by (simp add: pd_cut_def bins_def labels_def)
qed

lemma carregar_dados_scenario: "carregar_dados [scenario_row] = Inr [loaded scenario_row]"
  by (simp add: carregar_dados_eq survives_scenario_row not_overflows_scenario_row)

lemma loaded_scenario_row:
  "loaded scenario_row =
     with_faixa_etaria (with_idade (with_diagnostico scenario_row) (Some 20))"
  by (simp add: loaded_def scenario_row_def age_at_visit_def date_eval)

theorem faixa_etaria_bins_witness:
  "carregar_dados [scenario_row] = Inr [loaded scenario_row] \<and>
   faixa_etaria (loaded scenario_row) = Some (str ''Adulto (20-59)'') \<and>
   (0::int) \<le> 2 \<and> (2::int) < 120 \<and> (1::nat) < 5 \<and> bins ! 1 \<le> 2 \<and> 2 < bins ! Suc 1 \<and>
   pd_cut bins labels (Some 2) = Some (labels ! 1)"
proof -
  have age: "idade_no_atendimento (loaded scenario_row) = Some 20"
    by (simp add: loaded_scenario_row idade_no_atendimento_with_faixa_etaria
        idade_no_atendimento_with_idade)
  from faixa_etaria_bins [of "[scenario_row]" 2] carregar_dados_scenario
  have "faixa_etaria (loaded scenario_row) =
      pd_cut bins labels (idade_no_atendimento (loaded scenario_row))"
    by simp
  then have "faixa_etaria (loaded scenario_row) = Some (str ''Adulto (20-59)'')"
    by (simp add: age pd_cut_def bins_def labels_def)
  with faixa_etaria_bins [of "[scenario_row]" 2] carregar_dados_scenario show ?thesis
    by (simp add: bins_def labels_def str_def)
qed

theorem df_filtered_exact_witness:
  "df_filtered [Str (str ''Bauru'')] (the_date (midnight 2020 1 1)) (the_date (midnight 2020 1 1))
     [loaded scenario_row] = [loaded scenario_row] \<and>
   df_filtered [Str (str ''Bauru'')] (the_date (midnight 2020 1 2)) (the_date (midnight 2020 1 31))
     [loaded scenario_row] = []"
  using
    df_filtered_exact [of "[Str (str ''Bauru'')]" "the_date (midnight 2020 1 1)"
      "the_date (midnight 2020 1 1)" "[loaded scenario_row]"]
    df_filtered_exact [of "[Str (str ''Bauru'')]" "the_date (midnight 2020 1 2)"
      "the_date (midnight 2020 1 31)" "[loaded scenario_row]"]
  unfolding loaded_scenario_row
  by (simp add: with_faixa_etaria_def with_idade_def with_diagnostico_def
      raw_row.defs row.defs scenario_row_def midnight_def date_le_def)

section \<open>The calendar: dates follow the order of the timestamps\<close>

lemma div_step:
  fixes y k :: int
  assumes "0 < k"
  shows "y div k = (y - 1) div k + (if y mod k = 0 then 1 else 0)"
proof (cases "y mod k = 0")
  case True
  have "y = k * (y div k) + y mod k" by simp
  with True have "y - 1 = k * (y div k - 1) + (k - 1)"
    by (simp add: algebra_simps)
  with assms have "(y - 1) div k = y div k - 1"
    using int_div_pos_eq [of "y - 1" k "y div k - 1" "k - 1"] by simp
  with True show ?thesis by simp
next
  case False
  have r: "0 \<le> y mod k" "y mod k < k" using assms by simp_all
  have "y = k * (y div k) + y mod k" by simp
  then have "y - 1 = k * (y div k) + (y mod k - 1)" by simp
  with r False have "(y - 1) div k = y div k"
    using int_div_pos_eq [of "y - 1" k "y div k" "y mod k - 1"] by simp
  with False show ?thesis by simp
qed

lemma days_in_month_pos: "0 < days_in_month y m"
  by (simp add: days_in_month_def)


lemma mod_0_trans:
  fixes y :: int
  assumes "y mod n = 0" "k dvd n"
  shows "y mod k = 0"
proof -
  from assms(1) have "n dvd y" by (simp add: mod_eq_0_iff_dvd)
  with assms(2) have "k dvd y" by (rule dvd_trans)
  then show ?thesis by (simp add: mod_eq_0_iff_dvd)
qed

lemma days_before_year_Suc:
  "days_before_year (y + 1) = days_before_year y + (if is_leap y then 366 else 365)"
proof -
  have 1: "y div 4 = (y - 1) div 4 + (if y mod 4 = 0 then 1 else 0)"
    by (rule div_step) simp
  have 2: "y div 100 = (y - 1) div 100 + (if y mod 100 = 0 then 1 else 0)"
    by (rule div_step) simp
  have 3: "y div 400 = (y - 1) div 400 + (if y mod 400 = 0 then 1 else 0)"
    by (rule div_step) simp
  have a: "y mod 100 = 0 \<Longrightarrow> y mod 4 = 0"
    by (erule mod_0_trans) simp
  have b: "y mod 400 = 0 \<Longrightarrow> y mod 100 = 0"
    by (erule mod_0_trans) simp
  have "days_before_year (y + 1) = y * 365 + y div 4 - y div 100 + y div 400"
    by (simp add: days_before_year_def)
  also have "\<dots> = (y - 1) * 365 + (y - 1) div 4 - (y - 1) div 100 + (y - 1) div 400 + 365
      + (if y mod 4 = 0 then 1 else 0)
      - (if y mod 100 = 0 then 1 else 0) + (if y mod 400 = 0 then 1 else 0)"
    unfolding 1 2 3 by (simp only: algebra_simps)
  also have "\<dots> = days_before_year y + (if is_leap y then 366 else 365)"
    unfolding days_before_year_def is_leap_def using a b by (cases "y mod 4 = 0"; cases "y mod 100 = 0"; cases "y mod 400 = 0"; simp)
  finally show ?thesis .
qed


lemma days_before_year_mono_nat: "days_before_year y \<le> days_before_year (y + int n)"
proof (induction n)
  case 0
  show ?case by simp
next
  case (Suc n)
  have "days_before_year (y + int n) \<le> days_before_year ((y + int n) + 1)"
    unfolding days_before_year_Suc by simp
  moreover have "(y + int n) + 1 = y + int (Suc n)" by simp
  ultimately show ?case using Suc by simp
qed

lemma days_before_year_mono: "y \<le> y' \<Longrightarrow> days_before_year y \<le> days_before_year y'"
  using days_before_year_mono_nat [of y "nat (y' - y)"] by simp

lemma days_before_month_nonneg: "0 \<le> days_before_month y m"
  unfolding days_before_month_def
  by (rule sum_list_nonneg) (auto simp: less_imp_le [OF days_in_month_pos])

lemma days_before_month_Suc:
  "1 \<le> m \<Longrightarrow> days_before_month y (m + 1) = days_before_month y m + days_in_month y m"
  by (simp add: days_before_month_def upto_rec2 [of 1 m])

lemma days_before_month_mono:
  assumes "1 \<le> m" "m \<le> m'"
  shows "days_before_month y m \<le> days_before_month y m'"
proof (cases "m = 1")
  case True
  then have "days_before_month y m = 0" by (simp add: days_before_month_def)
  then show ?thesis by (simp add: days_before_month_nonneg)
next
  case False
  have "[1..m' - 1] = [1..m - 1] @ [m - 1 + 1..m' - 1]"
    using assms False by (intro upto_split2) simp_all
  then have "days_before_month y m' =
      days_before_month y m + sum_list (map (days_in_month y) [m - 1 + 1..m' - 1])"
    by (simp add: days_before_month_def)
  moreover have "0 \<le> sum_list (map (days_in_month y) [m - 1 + 1..m' - 1])"
    by (rule sum_list_nonneg) (auto simp: less_imp_le [OF days_in_month_pos])
  ultimately show ?thesis by simp
qed

lemma upto_1_12: "[1..12::int] = [1, 2, 3, 4, 5, 6, 7, 8, 9, 10, 11, 12]"
  by (simp add: upto_rec1 [of 1 12])

lemma days_before_month_13:
  "days_before_month y 13 = (if is_leap y then 366 else 365)"
  by (simp add: days_before_month_def days_in_month_def upto_1_12)

lemma toordinal_lower: "valid_date d \<Longrightarrow> days_before_year (year d) < toordinal d"
  using days_before_month_nonneg [of "year d" "month d"]
  by (simp add: toordinal_def valid_date_def)

lemma toordinal_month_upper:
  assumes "valid_date d"
  shows "toordinal d \<le> days_before_year (year d) + days_before_month (year d) (month d + 1)"
  using assms by (simp add: toordinal_def valid_date_def days_before_month_Suc)

lemma toordinal_upper:
  assumes "valid_date d"
  shows "toordinal d \<le> days_before_year (year d + 1)"
proof -
  from assms have m: "1 \<le> month d + 1" "month d + 1 \<le> 13"
    by (simp_all add: valid_date_def)
  have "toordinal d \<le> days_before_year (year d) + days_before_month (year d) (month d + 1)"
    using assms by (rule toordinal_month_upper)
  also have "\<dots> \<le> days_before_year (year d) + days_before_month (year d) 13"
    using days_before_month_mono [OF m] by simp
  also have "\<dots> = days_before_year (year d + 1)"
    by (simp add: days_before_month_13 days_before_year_Suc)
  finally show ?thesis .
qed

lemma date_le_toordinal:
  assumes a: "valid_date a" and b: "valid_date b" and le: "toordinal a \<le> toordinal b"
  shows "date_le a b"
proof (rule ccontr)
  assume "\<not> date_le a b"
  then consider "year b < year a"
    | "year b = year a" "month b < month a"
    | "year b = year a" "month b = month a" "day b < day a"
    unfolding date_le_def by linarith
  then have "toordinal b < toordinal a"
  proof cases
    case 1
    have "toordinal b \<le> days_before_year (year b + 1)"
      using b by (rule toordinal_upper)
    also have "\<dots> \<le> days_before_year (year a)"
      using 1 by (intro days_before_year_mono) simp
    also have "\<dots> < toordinal a"
      using a by (rule toordinal_lower)
    finally show ?thesis .
  next
    case 2
    from b have mb: "1 \<le> month b + 1" by (simp add: valid_date_def)
    from 2 have "month b + 1 \<le> month a" by simp
    with mb have "days_before_month (year b) (month b + 1) \<le> days_before_month (year b) (month a)"
      by (rule days_before_month_mono)
    moreover have "toordinal b \<le>
        days_before_year (year b) + days_before_month (year b) (month b + 1)"
      using b by (rule toordinal_month_upper)
    moreover have "days_before_year (year a) + days_before_month (year a) (month a) < toordinal a"
      using a by (simp add: toordinal_def valid_date_def)
    ultimately show ?thesis using 2 by simp
  next
    case 3
    then show ?thesis by (simp add: toordinal_def)
  qed
  with le show False by simp
qed

lemma toordinal_value_ns:
  assumes "valid_timestamp s" "valid_timestamp t" "value_ns s \<le> value_ns t"
  shows "toordinal (the_date s) \<le> toordinal (the_date t)"
proof (rule ccontr)
  assume "\<not> toordinal (the_date s) \<le> toordinal (the_date t)"
  then have "toordinal (the_date t) + 1 \<le> toordinal (the_date s)" by simp
  then have "(toordinal (the_date t) + 1) * ns_per_day \<le> toordinal (the_date s) * ns_per_day"
    by (intro mult_right_mono) (simp_all add: ns_per_day_def)
  moreover have "int (time_of_day t) < ns_per_day"
    using assms(2) by (simp add: valid_timestamp_def)
  ultimately have "value_ns t < value_ns s"
    by (simp add: value_ns_def algebra_simps)
  with assms(3) show False by simp
qed

lemma date_le_value_ns:
  assumes "valid_timestamp s" "valid_timestamp t" "value_ns s \<le> value_ns t"
  shows "date_le (the_date s) (the_date t)"
  using assms toordinal_value_ns [OF assms]
  by (intro date_le_toordinal) (simp_all add: valid_timestamp_def)

lemma min_ts_None: "min_ts ts = None \<longleftrightarrow> ts = []"
  by (cases ts) (simp_all split: option.splits)

lemma max_ts_None: "max_ts ts = None \<longleftrightarrow> ts = []"
  by (cases ts) (simp_all split: option.splits)

lemma min_ts_least: "min_ts ts = Some m \<Longrightarrow> m \<in> set ts \<and> (\<forall>t\<in>set ts. value_ns m \<le> value_ns t)"
proof (induction ts arbitrary: m)
  case Nil
  then show ?case by simp
next
  case (Cons t ts)
  show ?case
  proof (cases "min_ts ts")
    case None
    then have "ts = []" by (simp add: min_ts_None)
    with Cons.prems show ?thesis by simp
  next
    case (Some m')
    with Cons.IH have "m' \<in> set ts" "\<forall>t\<in>set ts. value_ns m' \<le> value_ns t" by simp_all
    with Cons.prems Some show ?thesis by (auto split: if_splits)
  qed
qed

lemma max_ts_greatest: "max_ts ts = Some m \<Longrightarrow> m \<in> set ts \<and> (\<forall>t\<in>set ts. value_ns t \<le> value_ns m)"
proof (induction ts arbitrary: m)
  case Nil
  then show ?case by simp
next
  case (Cons t ts)
  show ?case
  proof (cases "max_ts ts")
    case None
    then have "ts = []" by (simp add: max_ts_None)
    with Cons.prems show ?thesis by simp
  next
    case (Some m')
    with Cons.IH have "m' \<in> set ts" "\<forall>t\<in>set ts. value_ns t \<le> value_ns m'" by simp_all
    with Cons.prems Some show ?thesis by (auto split: if_splits)
  qed
qed

lemma set_notna: "set (notna col) = {v. Some v \<in> set col}"
  by (induction col) (auto simp: notna_def split: option.splits)

lemma set_unique_from: "set (unique_from seen xs) = set xs - set seen"
  by (induction xs arbitrary: seen) auto

lemma set_unique: "set (unique xs) = set xs"
  by (simp add: unique_def set_unique_from)

lemma dataEntrada_loaded: "dataEntrada (loaded r) = dataEntrada r"
  by (simp add: loaded_def with_faixa_etaria_def with_idade_def with_diagnostico_def
      raw_row.defs row.defs)

lemma survives_dataEntrada: "survives r \<Longrightarrow> \<exists>t. dataEntrada r = Some t"
  by (auto simp: survives_def split: option.splits)

lemma carregar_dados_dataEntrada:
  assumes "carregar_dados raw = Inr df" "r \<in> set df"
  shows "\<exists>r0\<in>set raw. \<exists>t. dataEntrada r0 = Some t \<and> dataEntrada r = Some t"
proof -
  from assms obtain r0 where "r0 \<in> set raw" "survives r0" "r = loaded r0"
    by (auto simp: carregar_dados_Inr)
  then show ?thesis
    using survives_dataEntrada [of r0] by (auto simp: dataEntrada_loaded)
qed

lemma filter_default_id:
  fixes df :: "row list"
  assumes valid: "\<forall>r\<in>set df. \<exists>t. dataEntrada r = Some t \<and> valid_timestamp t"
    and "df \<noteq> []"
  shows "\<exists>a b. min_date df = Some a \<and> max_date df = Some b \<and>
           df_filtered (cidades_default df) a b df = df"
proof -
  define ts where "ts = notna (map dataEntrada df)"
  have ts: "set ts = {t. \<exists>r\<in>set df. dataEntrada r = Some t}"
    by (force simp: ts_def set_notna image_iff)
  from \<open>df \<noteq> []\<close> obtain r where "r \<in> set df" by (cases df) auto
  with valid ts have "ts \<noteq> []" by fastforce
  then obtain lo hi where lo: "min_ts ts = Some lo" and hi: "max_ts ts = Some hi"
    using min_ts_None [of ts] max_ts_None [of ts] by auto
  from min_ts_least [OF lo] have lo_in: "lo \<in> set ts"
    and lo_le: "\<And>t. t \<in> set ts \<Longrightarrow> value_ns lo \<le> value_ns t" by simp_all
  from max_ts_greatest [OF hi] have hi_in: "hi \<in> set ts"
    and hi_ge: "\<And>t. t \<in> set ts \<Longrightarrow> value_ns t \<le> value_ns hi" by simp_all
  have valid_ts: "valid_timestamp t" if "t \<in> set ts" for t
    using that valid ts by fastforce
  have keep: "isin (cidade r) (cidades_default df) \<and>
      dt_date_ge (dataEntrada r) (the_date lo) \<and> dt_date_le (dataEntrada r) (the_date hi)"
    if r: "r \<in> set df" for r
  proof -
    from valid r obtain t where t: "dataEntrada r = Some t" by blast
    with r ts have t_in: "t \<in> set ts" by auto
    have "date_le (the_date lo) (the_date t)"
      using valid_ts [OF lo_in] valid_ts [OF t_in] lo_le [OF t_in] by (rule date_le_value_ns)
    moreover have "date_le (the_date t) (the_date hi)"
      using valid_ts [OF t_in] valid_ts [OF hi_in] hi_ge [OF t_in] by (rule date_le_value_ns)
    moreover have "isin (cidade r) (cidades_default df)"
      using r by (simp add: isin_def cidades_default_def set_unique)
    ultimately show ?thesis by (simp add: t dt_date_ge_def dt_date_le_def)
  qed
  have "df_filtered (cidades_default df) (the_date lo) (the_date hi) df = df"
    unfolding df_filtered_eq using keep by (simp add: filter_id_conv)
  moreover have "min_date df = Some (the_date lo)" "max_date df = Some (the_date hi)"
    using lo hi by (simp_all add: min_date_def max_date_def ts_def)
  ultimately show ?thesis by blast
qed

text \<open>
  Claim C10.  With the default criteria, all the distinct cities of the loaded table and
  the dates of its earliest and latest visit, the filter returns the loaded table
  itself; the default criteria exist for every loaded table that is not empty.  The
  visit dates are dates of the calendar, as \<open>pd.to_datetime\<close> returns them.
\<close>

theorem default_filter_identity:
  assumes "\<forall>r\<in>set raw. \<forall>t. dataEntrada r = Some t \<longrightarrow> valid_timestamp t"
    and "carregar_dados raw = Inr df"
  shows "(\<forall>a b. min_date df = Some a \<and> max_date df = Some b \<longrightarrow>
            df_filtered (cidades_default df) a b df = df) \<and>
         (df \<noteq> [] \<longrightarrow> (\<exists>a b. min_date df = Some a \<and> max_date df = Some b))"
proof (cases "df = []")
  case True
  then show ?thesis by (simp add: df_filtered_eq)
next
  case False
  have "\<forall>r\<in>set df. \<exists>t. dataEntrada r = Some t \<and> valid_timestamp t"
    using assms carregar_dados_dataEntrada [of raw df] by metis
  from filter_default_id [OF this False] show ?thesis by auto
qed

lemma valid_midnight_2020: "valid_timestamp (midnight 2020 1 1)"
  by (simp add: valid_timestamp_def valid_date_def midnight_def days_in_month_def ns_per_day_def)

theorem default_filter_identity_witness:
  "valid_timestamp (midnight 2020 1 1) \<and>
   carregar_dados [scenario_row] = Inr [loaded scenario_row] \<and>
   min_date [loaded scenario_row] = Some (the_date (midnight 2020 1 1)) \<and>
   max_date [loaded scenario_row] = Some (the_date (midnight 2020 1 1)) \<and>
   df_filtered (cidades_default [loaded scenario_row])
       (the_date (midnight 2020 1 1)) (the_date (midnight 2020 1 1)) [loaded scenario_row]
     = [loaded scenario_row]"
proof -
  have valid: "\<forall>r\<in>set [scenario_row]. \<forall>t. dataEntrada r = Some t \<longrightarrow> valid_timestamp t"
    using valid_midnight_2020 by (simp add: scenario_row_def)
  have lo: "min_date [loaded scenario_row] = Some (the_date (midnight 2020 1 1))"
    by (simp add: min_date_def notna_def dataEntrada_loaded scenario_row_def)
  have hi: "max_date [loaded scenario_row] = Some (the_date (midnight 2020 1 1))"
    by (simp add: max_date_def notna_def dataEntrada_loaded scenario_row_def)
  from default_filter_identity [OF valid carregar_dados_scenario] lo hi valid_midnight_2020
    carregar_dados_scenario
  show ?thesis by blast
qed

section \<open>Counting the diagnoses: properties\<close>

lemma distinct_unique_from: "distinct (unique_from seen xs)"
  by (induction xs arbitrary: seen) (auto simp: set_unique_from)

lemma distinct_unique: "distinct (unique xs)"
  by (simp add: unique_def distinct_unique_from)

lemma dropna_idem: "dropna (dropna col) = dropna col"
  by (simp add: dropna_def)

lemma set_dropna: "set (dropna col) = set col - {NaN}"
  by (auto simp: dropna_def)

lemma count_list_dropna: "v \<noteq> NaN \<Longrightarrow> count_list (dropna col) v = count_list col v"
  by (induction col) (simp_all add: dropna_def)

lemma value_counts_dropna: "value_counts (dropna col) = value_counts col"
  by (simp add: value_counts_def Let_def dropna_idem)

lemma set_value_counts:
  "set (value_counts col) = (\<lambda>v. (v, count_list col v)) ` (set col - {NaN})"
proof -
  have "set (value_counts col) = (\<lambda>v. (v, count_list (dropna col) v)) ` set (dropna col)"
    by (simp add: value_counts_def Let_def set_unique)
  also have "\<dots> = (\<lambda>v. (v, count_list col v)) ` (set col - {NaN})"
    by (rule image_cong) (auto simp: set_dropna count_list_dropna)
  finally show ?thesis .
qed

lemma value_counts_descending: "sorted_wrt (\<lambda>p q. snd q \<le> snd p) (value_counts col)"
proof -
  let ?counts = "map (\<lambda>v. (v, count_list (dropna col) v)) (unique (dropna col))"
  have "sorted (map snd (sort_key snd ?counts))"
    by (rule sorted_sort_key)
  then have "sorted_wrt (\<lambda>p q. snd p \<le> snd q) (sort_key snd ?counts)"
    by (simp add: sorted_wrt_map)
  then show ?thesis
    by (simp add: value_counts_def Let_def sorted_wrt_rev)
qed

lemma value_counts_distinct: "distinct (map fst (value_counts col))"
proof -
  let ?counts = "map (\<lambda>v. (v, count_list (dropna col) v)) (unique (dropna col))"
  have "distinct (map fst ?counts)"
    by (simp add: comp_def distinct_unique)
  then have "distinct ?counts \<and> inj_on fst (set ?counts)"
    by (simp only: distinct_map)
  then have "distinct (rev (sort_key snd ?counts)) \<and>
      inj_on fst (set (rev (sort_key snd ?counts)))"
    by simp
  then show ?thesis
    unfolding value_counts_def Let_def by (simp only: distinct_map)
qed

lemma map_diagnostico_df_clean_diag:
  "map diagnostico (df_clean_diag df) = dropna (map diagnostico df)"
  by (simp add: df_clean_diag_def dropna_def filter_map comp_def)

lemma top_diagnosticos_eq: "top_diagnosticos df = take 10 (value_counts (map diagnostico df))"
  by (simp add: top_diagnosticos_def map_diagnostico_df_clean_diag value_counts_dropna)

lemma diagnostico_diag_row: "diagnostico (diag_row d) = d"
  by (simp add: diag_row_def with_faixa_etaria_def with_idade_def raw_row.defs row.defs)

lemma map_diagnostico_tie_view:
  "map diagnostico tie_view =
     [Str (str ''a''), Str (str ''b''), Str (str ''c''), Str (str ''c''), Str (str ''d''),
      Str (str ''d'')]"
  by (simp add: tie_view_def diagnostico_diag_row)

lemma top_diagnosticos_tie_view:
  "top_diagnosticos tie_view =
     [(Str (str ''d''), 2), (Str (str ''c''), 2), (Str (str ''b''), 1), (Str (str ''a''), 1)]"
  unfolding top_diagnosticos_eq map_diagnostico_tie_view
  by (simp add: value_counts_def dropna_def unique_def str_def)

text \<open>
  Claim C8 as it is stated, with ties broken by the order of first occurrence, fails: in
  the view with the diagnoses a, b, c, c, d, d the ranking lists d before c, both with
  2 rows, although c occurs first.
\<close>

theorem top_diagnosticos_ties_counterexample:
  "top_diagnosticos tie_view =
     [(Str (str ''d''), 2), (Str (str ''c''), 2), (Str (str ''b''), 1), (Str (str ''a''), 1)] \<and>
   snd (top_diagnosticos tie_view ! 0) = snd (top_diagnosticos tie_view ! 1) \<and>
   \<not> first_index (map diagnostico tie_view) (fst (top_diagnosticos tie_view ! 0))
       < first_index (map diagnostico tie_view) (fst (top_diagnosticos tie_view ! 1))"
  unfolding top_diagnosticos_tie_view map_diagnostico_tie_view
  by (simp add: first_index_def str_def)

text \<open>
  Claim C8.  The ranking has at most 10 entries and never the missing diagnosis; each
  entry is a diagnosis of the view with the number of its rows, no diagnosis is listed
  twice, and the counts are in descending order.  Nothing is said of the order of two
  entries with the same count.
\<close>

theorem top_diagnosticos_ranking:
  "length (top_diagnosticos df) \<le> 10 \<and>
   NaN \<notin> fst ` set (top_diagnosticos df) \<and>
   distinct (map fst (top_diagnosticos df)) \<and>
   (\<forall>p\<in>set (top_diagnosticos df).
      fst p \<in> set (map diagnostico df) \<and> snd p = count_list (map diagnostico df) (fst p)) \<and>
   sorted_wrt (\<lambda>p q. snd q \<le> snd p) (top_diagnosticos df)"
proof (intro conjI ballI)
  let ?col = "map diagnostico df"
  show "length (top_diagnosticos df) \<le> 10"
    by (simp add: top_diagnosticos_eq)
  have sub: "set (top_diagnosticos df) \<subseteq> set (value_counts ?col)"
    unfolding top_diagnosticos_eq by (rule set_take_subset)
  then show "NaN \<notin> fst ` set (top_diagnosticos df)"
    by (auto simp: set_value_counts)
  show "distinct (map fst (top_diagnosticos df))"
    unfolding top_diagnosticos_eq take_map [symmetric]
    by (rule distinct_take) (rule value_counts_distinct)
  show "sorted_wrt (\<lambda>p q. snd q \<le> snd p) (top_diagnosticos df)"
    unfolding top_diagnosticos_eq by (rule sorted_wrt_take) (rule value_counts_descending)
  fix p assume "p \<in> set (top_diagnosticos df)"
  with sub have "p \<in> set (value_counts ?col)" by blast
  then show "fst p \<in> set ?col" and "snd p = count_list ?col (fst p)"
    by (auto simp: set_value_counts)
qed

lemma first_max_greatest:
  "first_max best ps \<in> set (best # ps) \<and> (\<forall>q\<in>set (best # ps). snd q \<le> snd (first_max best ps))"
proof (induction ps arbitrary: best)
  case Nil
  show ?case by simp
next
  case (Cons p ps)
  from Cons.IH [of "if snd best < snd p then p else best"]
  show ?case by (auto split: if_splits)
qed

lemma idxmax_greatest:
  assumes "ps \<noteq> []"
  shows "\<exists>m\<in>set ps. idxmax ps = Inr (fst m) \<and> (\<forall>q\<in>set ps. snd q \<le> snd m)"
proof -
  from assms obtain p ps' where ps: "ps = p # ps'" by (cases ps) auto
  from first_max_greatest [of p ps'] show ?thesis
    unfolding ps idxmax_def by (intro bexI [of _ "first_max p ps'"]) simp_all
qed

lemma value_counts_Nil: "value_counts col = [] \<longleftrightarrow> (\<forall>c\<in>set col. c = NaN)"
proof -
  have "value_counts col = [] \<longleftrightarrow> set (value_counts col) = {}" by simp
  also have "\<dots> \<longleftrightarrow> (\<forall>c\<in>set col. c = NaN)"
    unfolding set_value_counts by auto
  finally show ?thesis .
qed

lemma top_diag_eq:
  "top_diag df =
     (case idxmax (value_counts (map diagnostico df)) of Inl e \<Rightarrow> Str (str ''N/A'') | Inr d \<Rightarrow> d)"
  by (simp add: top_diag_def value_counts_dropna)

text \<open>
  Claim C5.  When the view has a diagnosis that is not missing, the indicator is such a
  diagnosis, and no other diagnosis has more rows.  When the view is empty or all its
  diagnoses are missing, the error of \<open>idxmax\<close> is caught and the indicator is the
  text \<open>N/A\<close>.
\<close>

theorem top_diag_modal:
  "((\<exists>d. Str d \<in> set (map diagnostico df)) \<longrightarrow>
      (\<exists>d. top_diag df = Str d \<and> Str d \<in> set (map diagnostico df) \<and>
           (\<forall>c. c \<noteq> NaN \<longrightarrow>
                count_list (map diagnostico df) c \<le> count_list (map diagnostico df) (Str d)))) \<and>
   ((\<forall>c\<in>set (map diagnostico df). c = NaN) \<longrightarrow> top_diag df = Str (str ''N/A'')) \<and>
   top_diag [] = Str (str ''N/A'')"
proof (intro conjI impI)
  let ?col = "map diagnostico df"
  assume "\<exists>d. Str d \<in> set ?col"
  then obtain d0 where "Str d0 \<in> set ?col" by blast
  then have "\<not> (\<forall>c\<in>set ?col. c = NaN)" by (metis cell.distinct(1))
  then have "value_counts ?col \<noteq> []"
    by (simp only: value_counts_Nil not_False_eq_True)
  from idxmax_greatest [OF this] obtain m where m: "m \<in> set (value_counts ?col)"
    and idx: "idxmax (value_counts ?col) = Inr (fst m)"
    and greatest: "\<forall>q\<in>set (value_counts ?col). snd q \<le> snd m"
    by blast
  from m have fst_m: "fst m \<in> set ?col" "fst m \<noteq> NaN" and snd_m: "snd m = count_list ?col (fst m)"
    by (auto simp: set_value_counts)
  from fst_m(2) obtain d where d: "fst m = Str d" by (cases "fst m") simp_all
  have "count_list ?col c \<le> count_list ?col (Str d)" if "c \<noteq> NaN" for c
  proof (cases "c \<in> set ?col")
    case True
    with that have "(c, count_list ?col c) \<in> set (value_counts ?col)"
      by (simp add: set_value_counts)
    with greatest have "count_list ?col c \<le> snd m" by fastforce
    then show ?thesis by (simp add: snd_m d)
  next
    case False
    then show ?thesis by simp
  qed
  moreover have "top_diag df = Str d"
    by (simp add: top_diag_eq idx d)
  ultimately show "\<exists>d. top_diag df = Str d \<and> Str d \<in> set ?col \<and>
      (\<forall>c. c \<noteq> NaN \<longrightarrow> count_list ?col c \<le> count_list ?col (Str d))"
    using fst_m(1) d by auto
next
  assume "\<forall>c\<in>set (map diagnostico df). c = NaN"
  then have "value_counts (map diagnostico df) = []"
    by (simp only: value_counts_Nil)
  then show "top_diag df = Str (str ''N/A'')"
    by (simp add: top_diag_eq idxmax_def)
next
  have "value_counts (map diagnostico ([] :: row list)) = []"
    by (simp add: value_counts_Nil)
  then show "top_diag [] = Str (str ''N/A'')"
    by (simp add: top_diag_eq idxmax_def)
qed

lemma map_diagnostico_scenario_view:
  "map diagnostico scenario_view =
     [Str (str ''gripe''), Str (str ''asma''), NaN, Str (str ''gripe''), Str (str ''gripe''),
      Str (str ''asma''), Str (str ''dengue'')]"
  by (simp add: scenario_view_def diagnostico_diag_row)

lemma value_counts_scenario_view:
  "value_counts (map diagnostico scenario_view) =
     [(Str (str ''gripe''), 3), (Str (str ''asma''), 2), (Str (str ''dengue''), 1)]"
  unfolding map_diagnostico_scenario_view
  by (simp add: value_counts_def dropna_def unique_def str_def)

theorem top_diag_modal_witness:
  "Str (str ''gripe'') \<in> set (map diagnostico scenario_view) \<and>
   top_diag scenario_view = Str (str ''gripe'') \<and>
   top_diag (map diag_row [NaN, NaN]) = Str (str ''N/A'')"
proof -
  have 1: "Str (str ''gripe'') \<in> set (map diagnostico scenario_view)"
    by (simp add: map_diagnostico_scenario_view)
  have 2: "top_diag scenario_view = Str (str ''gripe'')"
    by (simp add: top_diag_eq value_counts_scenario_view idxmax_def)
  have 3: "\<forall>c\<in>set (map diagnostico (map diag_row [NaN, NaN])). c = NaN"
    by (simp add: diagnostico_diag_row)
  from top_diag_modal [of "map diag_row [NaN, NaN]"] 3
  have "top_diag (map diag_row [NaN, NaN]) = Str (str ''N/A'')" by blast
  with 1 2 show ?thesis by simp
qed

theorem top_diagnosticos_ranking_witness:
  "top_diagnosticos scenario_view =
     [(Str (str ''gripe''), 3), (Str (str ''asma''), 2), (Str (str ''dengue''), 1)] \<and>
   Str (str ''gripe'') \<in> set (map diagnostico scenario_view) \<and>
   count_list (map diagnostico scenario_view) (Str (str ''gripe'')) = 3"
proof -
  have r: "top_diagnosticos scenario_view =
     [(Str (str ''gripe''), 3), (Str (str ''asma''), 2), (Str (str ''dengue''), 1)]"
    by (simp add: top_diagnosticos_eq value_counts_scenario_view)
  from top_diagnosticos_ranking [of scenario_view]
  have "\<forall>p\<in>set (top_diagnosticos scenario_view).
      fst p \<in> set (map diagnostico scenario_view) \<and>
      snd p = count_list (map diagnostico scenario_view) (fst p)"
    by blast
  from this [rule_format, of "(Str (str ''gripe''), 3)"] r show ?thesis by simp
qed

section \<open>Visits per month: properties\<close>

lemma count_list_map_filter: "count_list (map f xs) y = length (filter (\<lambda>x. f x = y) xs)"
  by (induction xs) simp_all

lemma month_index_mono:
  assumes "valid_date a" "valid_date b" "date_le a b"
  shows "month_index a \<le> month_index b"
  using assms unfolding valid_date_def date_le_def month_index_def by auto

lemma month_index_value_ns:
  assumes "valid_timestamp s" "valid_timestamp t" "value_ns s \<le> value_ns t"
  shows "month_index (the_date s) \<le> month_index (the_date t)"
  using assms date_le_value_ns [OF assms]
  by (intro month_index_mono) (simp_all add: valid_timestamp_def)

lemma month_index_month_end: "month_index (month_end i) = i"
  by (simp add: month_index_def month_end_def Let_def)

lemma month_end_mono:
  assumes "i < j"
  shows "date_le (month_end i) (month_end j) \<and> month_end i \<noteq> month_end j"
proof -
  have "month_index (month_end i) \<noteq> month_index (month_end j)"
    using assms by (simp add: month_index_month_end)
  then have ne: "month_end i \<noteq> month_end j" by metis
  have "i div 12 \<le> j div 12" using assms by (intro zdiv_mono1) simp_all
  moreover have "i mod 12 < j mod 12" if "i div 12 = j div 12"
  proof -
    have "i = 12 * (i div 12) + i mod 12" "j = 12 * (j div 12) + j mod 12" by simp_all
    with that assms show ?thesis by linarith
  qed
  ultimately have "date_le (month_end i) (month_end j)"
    by (auto simp: date_le_def month_end_def Let_def)
  with ne show ?thesis by simp
qed

lemma resample_M_size_eq:
  assumes valid: "\<forall>t\<in>set ts. valid_timestamp t" and "ts \<noteq> []"
  shows "resample_M_size ts =
     map (\<lambda>i. (month_end i, count_list (map (\<lambda>t. month_index (the_date t)) ts) i))
       [Min (set (map (\<lambda>t. month_index (the_date t)) ts))..
        Max (set (map (\<lambda>t. month_index (the_date t)) ts))]"
proof -
  let ?m = "\<lambda>t. month_index (the_date t)"
  from \<open>ts \<noteq> []\<close> obtain lo hi where lo: "min_ts ts = Some lo" and hi: "max_ts ts = Some hi"
    using min_ts_None [of ts] max_ts_None [of ts] by auto
  from min_ts_least [OF lo] have lo_in: "lo \<in> set ts"
    and lo_le: "\<And>t. t \<in> set ts \<Longrightarrow> value_ns lo \<le> value_ns t" by simp_all
  from max_ts_greatest [OF hi] have hi_in: "hi \<in> set ts"
    and hi_ge: "\<And>t. t \<in> set ts \<Longrightarrow> value_ns t \<le> value_ns hi" by simp_all
  have "Min (set (map ?m ts)) = ?m lo"
  proof (rule Min_eqI)
    show "finite (set (map ?m ts))" by simp
    show "?m lo \<in> set (map ?m ts)" using lo_in by simp
    fix y assume "y \<in> set (map ?m ts)"
    then obtain t where t: "t \<in> set ts" "y = ?m t" by auto
    with valid lo_in lo_le [OF t(1)] show "?m lo \<le> y"
      by (simp add: month_index_value_ns)
  qed
  moreover have "Max (set (map ?m ts)) = ?m hi"
  proof (rule Max_eqI)
    show "finite (set (map ?m ts))" by simp
    show "?m hi \<in> set (map ?m ts)" using hi_in by simp
    fix y assume "y \<in> set (map ?m ts)"
    then obtain t where t: "t \<in> set ts" "y = ?m t" by auto
    with valid hi_in hi_ge [OF t(1)] show "y \<le> ?m hi"
      by (simp add: month_index_value_ns)
  qed
  ultimately show ?thesis
    by (simp add: resample_M_size_def lo hi count_list_map_filter)
qed

lemma vendas_tempo_eq:
  fixes df :: "row list"
  assumes valid: "\<forall>r\<in>set df. \<exists>t. dataEntrada r = Some t \<and> valid_timestamp t"
    and "df \<noteq> []"
  shows "vendas_tempo df =
     map (\<lambda>i. (month_end i, count_list (months_of df) i))
       [Min (set (months_of df))..Max (set (months_of df))]"
proof -
  define ts where "ts = notna (map dataEntrada df)"
  have ts: "set ts = {t. \<exists>r\<in>set df. dataEntrada r = Some t}"
    by (force simp: ts_def set_notna image_iff)
  from \<open>df \<noteq> []\<close> obtain r where "r \<in> set df" by (cases df) auto
  with valid ts have "ts \<noteq> []" by fastforce
  moreover have "\<forall>t\<in>set ts. valid_timestamp t"
    using valid ts by fastforce
  ultimately show ?thesis
    using resample_M_size_eq [of ts] by (simp add: vendas_tempo_def months_of_def ts_def)
qed

text \<open>
  Claim C7.  For a filtered view that is not empty, the monthly series has one point for
  each calendar month from the earliest to the latest month with a visit, in
  chronological order, with the number of visits of that month, which is 0 for a month
  without visits; for an empty view the series is empty.  Each point is labelled by the
  last day of its month, and later months have later labels.
\<close>

theorem vendas_tempo_months:
  assumes "\<forall>r\<in>set raw. \<forall>t. dataEntrada r = Some t \<longrightarrow> valid_timestamp t"
    and "carregar_dados raw = Inr df"
    and "view = df_filtered cidades data_inicio data_fim df"
  shows "(view = [] \<longrightarrow> vendas_tempo view = []) \<and>
    (view \<noteq> [] \<longrightarrow>
       vendas_tempo view =
         map (\<lambda>i. (month_end i, count_list (months_of view) i))
           [Min (set (months_of view))..Max (set (months_of view))]) \<and>
    (\<forall>i. month_index (month_end i) = i) \<and>
    (\<forall>i j. i < j \<longrightarrow> date_le (month_end i) (month_end j) \<and> month_end i \<noteq> month_end j)"
proof (intro conjI impI allI)
  assume "view = []"
  then show "vendas_tempo view = []"
    by (simp add: vendas_tempo_def notna_def resample_M_size_def)
next
  assume ne: "view \<noteq> []"
  have "set view \<subseteq> set df"
    unfolding assms(3) by (rule df_filtered_subset)
  then have "\<forall>r\<in>set view. \<exists>t. dataEntrada r = Some t \<and> valid_timestamp t"
    using assms(1) carregar_dados_dataEntrada [OF assms(2)] by (metis subsetD)
  from vendas_tempo_eq [OF this ne]
  show "vendas_tempo view =
         map (\<lambda>i. (month_end i, count_list (months_of view) i))
           [Min (set (months_of view))..Max (set (months_of view))]" .
next
  fix i show "month_index (month_end i) = i" by (rule month_index_month_end)
next
  fix i j :: int assume "i < j"
  then show "date_le (month_end i) (month_end j)" "month_end i \<noteq> month_end j"
    using month_end_mono by simp_all
qed

lemma survives_visit_on_2020: "survives (visit_on 2020 m d) \<longleftrightarrow>
   0 \<le> age_at_visit (midnight 2000 1 1) (midnight 2020 m d) \<and>
   age_at_visit (midnight 2000 1 1) (midnight 2020 m d) < 120"
  by (simp add: survives_def visit_on_def scenario_row_def)

lemma age_jan: "age_at_visit (midnight 2000 1 1) (midnight 2020 1 15) = 20"
  by (simp add: age_at_visit_def date_eval)

lemma upto_1_2: "[1..2::int] = [1, 2]"
  by (simp add: upto_rec1 [of 1 2])

lemma age_mar: "age_at_visit (midnight 2000 1 1) (midnight 2020 3 2) = 20"
  by (simp add: age_at_visit_def date_eval upto_1_2)

lemma not_overflows_visits:
  "\<not> overflows (visit_on 2020 1 15)" "\<not> overflows (visit_on 2020 3 2)"
  by (simp_all add: overflows_def visit_on_def scenario_row_def date_eval upto_1_2
      int64_min_def int64_max_def)

lemma valid_visits:
  "valid_timestamp (midnight 2020 1 15)" "valid_timestamp (midnight 2020 3 2)"
  by (simp_all add: valid_timestamp_def valid_date_def midnight_def days_in_month_def
      ns_per_day_def)

lemma carregar_dados_jan_mar:
  "carregar_dados [visit_on 2020 1 15, visit_on 2020 3 2] =
     Inr [loaded (visit_on 2020 1 15), loaded (visit_on 2020 3 2)]"
  by (simp add: carregar_dados_eq survives_visit_on_2020 age_jan age_mar not_overflows_visits)

lemma cidade_loaded: "cidade (loaded r) = cidade r"
  by (simp add: loaded_def with_faixa_etaria_def with_idade_def with_diagnostico_def
      raw_row.defs row.defs)

lemma view_jan_mar:
  "df_filtered [Str (str ''Bauru'')] (the_date (midnight 2020 1 1)) (the_date (midnight 2020 12 31))
     [loaded (visit_on 2020 1 15), loaded (visit_on 2020 3 2)] =
   [loaded (visit_on 2020 1 15), loaded (visit_on 2020 3 2)]"
  by (simp add: df_filtered_eq isin_def dt_date_ge_def dt_date_le_def date_le_def
      cidade_loaded dataEntrada_loaded visit_on_def scenario_row_def midnight_def)

theorem vendas_tempo_months_witness:
  "valid_timestamp (midnight 2020 1 15) \<and> valid_timestamp (midnight 2020 3 2) \<and>
   carregar_dados [visit_on 2020 1 15, visit_on 2020 3 2] =
     Inr [loaded (visit_on 2020 1 15), loaded (visit_on 2020 3 2)] \<and>
   vendas_tempo
     (df_filtered [Str (str ''Bauru'')] (the_date (midnight 2020 1 1))
        (the_date (midnight 2020 12 31))
        [loaded (visit_on 2020 1 15), loaded (visit_on 2020 3 2)]) =
   [(\<lparr>year = 2020, month = 1, day = 31\<rparr>, 1),
    (\<lparr>year = 2020, month = 2, day = 29\<rparr>, 0),
    (\<lparr>year = 2020, month = 3, day = 31\<rparr>, 1)]"
proof -
  let ?raw = "[visit_on 2020 1 15, visit_on 2020 3 2]"
  let ?df = "[loaded (visit_on 2020 1 15), loaded (visit_on 2020 3 2)]"
  let ?view = "df_filtered [Str (str ''Bauru'')] (the_date (midnight 2020 1 1))
        (the_date (midnight 2020 12 31)) ?df"
  have valid: "\<forall>r\<in>set ?raw. \<forall>t. dataEntrada r = Some t \<longrightarrow> valid_timestamp t"
    using valid_visits by (simp add: visit_on_def)
  have months: "months_of ?view = [24240, 24242]"
    unfolding view_jan_mar
    by (simp add: months_of_def notna_def dataEntrada_loaded visit_on_def month_index_def
        midnight_def)
  have ne: "?view \<noteq> []" unfolding view_jan_mar by simp
  have "[24240..24242::int] = [24240, 24241, 24242]" by simp
  with vendas_tempo_months [OF valid carregar_dados_jan_mar refl, of "[Str (str ''Bauru'')]"
      "the_date (midnight 2020 1 1)" "the_date (midnight 2020 12 31)"] ne
  have "vendas_tempo ?view = [(month_end 24240, 1), (month_end 24241, 0), (month_end 24242, 1)]"
    by (simp add: months)
  then show ?thesis
    using valid_visits carregar_dados_jan_mar
    by (simp add: month_end_def days_in_month_def is_leap_def)
qed

section \<open>Search in the complaint: properties\<close>

lemma queixa_queixa_row: "queixa (queixa_row q) = q"
  by (simp add: queixa_row_def with_faixa_etaria_def with_idade_def raw_row.defs row.defs)

lemma str_contains_na_nan: "str_contains (str ''na'') (astype_str NaN)"
  by (simp add: str_contains_def astype_str_def str_def lower_def upt_rec)

text \<open>
  Claim C6.  The search is meant to return the rows whose complaint contains the term,
  ignoring case, and never a row without complaint.  The column is cast to text before
  the search, so a missing complaint is searched as the text \<open>nan\<close>: for the term
  \<open>na\<close> the row without complaint is returned.
\<close>

theorem df_queixa_null_complaint_matches:
  "plain_term (str ''na'') \<and> queixa (queixa_row NaN) = NaN \<and>
   df_queixa (str ''na'') [queixa_row NaN] = Some [queixa_row NaN]"
proof (intro conjI)
  show "plain_term (str ''na'')"
    by (simp add: plain_term_def special_chars_def str_def)
  show "queixa (queixa_row NaN) = NaN"
    by (rule queixa_queixa_row)
  have "str ''na'' \<noteq> []" by (simp add: str_def)
  then show "df_queixa (str ''na'') [queixa_row NaN] = Some [queixa_row NaN]"
    by (simp add: df_queixa_def boolean_index_def queixa_queixa_row str_contains_na_nan)
qed

text \<open>The scenario of the specification: the term \<open>febre\<close> finds the first two complaints.\<close>

lemma df_queixa_febre:
  "df_queixa (str ''febre'')
     [queixa_row (Str (str ''Febre alta'')), queixa_row (Str (str ''febre e tosse'')),
      queixa_row (Str (str ''dor''))] =
   Some [queixa_row (Str (str ''Febre alta'')), queixa_row (Str (str ''febre e tosse''))]"
proof -
  have 1: "str_contains (str ''febre'') (str ''Febre alta'')"
    by (simp add: str_contains_def str_def lower_def upt_rec)
  have 2: "str_contains (str ''febre'') (str ''febre e tosse'')"
    by (simp add: str_contains_def str_def lower_def upt_rec)
  have 3: "\<not> str_contains (str ''febre'') (str ''dor'')"
    by (simp add: str_contains_def str_def lower_def upt_rec)
  have "str ''febre'' \<noteq> []" by (simp add: str_def)
  then show ?thesis
    by (simp add: df_queixa_def boolean_index_def queixa_queixa_row astype_str_def 1 2 3)
qed

lemma df_queixa_empty_term: "df_queixa [] df = None"
  by (simp add: df_queixa_def)

end
